theory Spec2Isabelle
  imports Main "HOL-Library.Word"
begin

unbundle bit_operations_syntax

section \<open>HCI event filter for Extended Advertising Reports (RSSI and UUID)\<close>

text \<open>
  A shallow embedding of \<^verbatim>\<open>sl_bt_hci_ext_adv_filter.c\<close> and its two headers.
  Fixed-width C integers are words, so that \<^verbatim>\<open>uint8_t\<close> arithmetic wraps as it does in
  the source. Pointers are byte addresses into a flat store (\<open>0\<close> is \<^verbatim>\<open>NULL\<close>), because the
  active filter keeps pointers into the buffer the configuration was read from. The loops
  of the source are partial functions in the option monad: \<open>None\<close> means the loop never
  returns.
\<close>

type_synonym u8 = "8 word"
type_synonym u16 = "16 word"
type_synonym u32 = "32 word"
type_synonym memory = "nat \<Rightarrow> u8"

subsection \<open>Constants of the source and of its headers\<close>

datatype sl_status =
  SL_STATUS_OK | SL_STATUS_FAIL | SL_STATUS_NULL_POINTER | SL_STATUS_INVALID_PARAMETER

text \<open>\<^verbatim>\<open>enum sl_btctrl_hci_event_filter_status\<close>; the constructors drop the common prefix
  \<^verbatim>\<open>SL_BTCTRL_HCI_EVENT_FILTER_STATUS_\<close>.\<close>

datatype sl_btctrl_hci_event_filter_status = EVENT_ACCEPT | EVENT_DISCARD

definition BT_OK :: u8 where "BT_OK = 0"
definition BT_ERR_INVALID :: u8 where "BT_ERR_INVALID = 0x12"

definition HCI_EVENT_LE_META_EVENT :: u8 where "HCI_EVENT_LE_META_EVENT = 0x3e"
definition HCI_EVENT_LE_EXTENDED_ADVERTISING_REPORT :: u8 where
  "HCI_EVENT_LE_EXTENDED_ADVERTISING_REPORT = 0x0d"

definition SL_BT_HCI_AD_TYPE_INCOMPLETE_SERVICE_CLASS_UUID_16_BIT :: u8 where
  "SL_BT_HCI_AD_TYPE_INCOMPLETE_SERVICE_CLASS_UUID_16_BIT = 0x02"
definition SL_BT_HCI_AD_TYPE_COMPLETE_SERVICE_CLASS_UUID_16_BIT :: u8 where
  "SL_BT_HCI_AD_TYPE_COMPLETE_SERVICE_CLASS_UUID_16_BIT = 0x03"
definition SL_BT_HCI_AD_TYPE_INCOMPLETE_SERVICE_CLASS_UUID_32_BIT :: u8 where
  "SL_BT_HCI_AD_TYPE_INCOMPLETE_SERVICE_CLASS_UUID_32_BIT = 0x04"
definition SL_BT_HCI_AD_TYPE_COMPLETE_SERVICE_CLASS_UUID_32_BIT :: u8 where
  "SL_BT_HCI_AD_TYPE_COMPLETE_SERVICE_CLASS_UUID_32_BIT = 0x05"
definition SL_BT_HCI_AD_TYPE_SERVICE_DATA_UUID_16_BIT :: u8 where
  "SL_BT_HCI_AD_TYPE_SERVICE_DATA_UUID_16_BIT = 0x16"
definition SL_BT_HCI_AD_TYPE_SERVICE_DATA_UUID_32_BIT :: u8 where
  "SL_BT_HCI_AD_TYPE_SERVICE_DATA_UUID_32_BIT = 0x20"

text \<open>Bit positions of the filter bitmap (\<^verbatim>\<open>sl_bt_hci_ext_adv_filter.h\<close>).\<close>

definition SL_BT_HCI_FILTER_CONFIG_RSSI_ENABLE :: nat where
  "SL_BT_HCI_FILTER_CONFIG_RSSI_ENABLE = 0"
definition SL_BT_HCI_FILTER_CONFIG_SERVICE_DATA_UUID_16_BIT_ENABLE :: nat where
  "SL_BT_HCI_FILTER_CONFIG_SERVICE_DATA_UUID_16_BIT_ENABLE = 1"
definition SL_BT_HCI_FILTER_CONFIG_INCOMPLETE_UUID_16_BIT_ENABLE :: nat where
  "SL_BT_HCI_FILTER_CONFIG_INCOMPLETE_UUID_16_BIT_ENABLE = 2"
definition SL_BT_HCI_FILTER_CONFIG_COMPLETE_UUID_16_BIT_ENABLE :: nat where
  "SL_BT_HCI_FILTER_CONFIG_COMPLETE_UUID_16_BIT_ENABLE = 3"
definition SL_BT_HCI_FILTER_CONFIG_SERVICE_DATA_UUID_32_BIT_ENABLE :: nat where
  "SL_BT_HCI_FILTER_CONFIG_SERVICE_DATA_UUID_32_BIT_ENABLE = 4"
definition SL_BT_HCI_FILTER_CONFIG_INCOMPLETE_UUID_32_BIT_ENABLE :: nat where
  "SL_BT_HCI_FILTER_CONFIG_INCOMPLETE_UUID_32_BIT_ENABLE = 5"
definition SL_BT_HCI_FILTER_CONFIG_COMPLETE_UUID_32_BIT_ENABLE :: nat where
  "SL_BT_HCI_FILTER_CONFIG_COMPLETE_UUID_32_BIT_ENABLE = 6"

definition SL_BT_HCI_FILTER_CONFIG_RSSI_ENABLE_MASK :: u32 where
  "SL_BT_HCI_FILTER_CONFIG_RSSI_ENABLE_MASK = push_bit SL_BT_HCI_FILTER_CONFIG_RSSI_ENABLE 1"

definition SL_BT_HCI_FILTER_CONFIG_MASK :: u32 where
  "SL_BT_HCI_FILTER_CONFIG_MASK =
     SL_BT_HCI_FILTER_CONFIG_RSSI_ENABLE_MASK
     OR push_bit SL_BT_HCI_FILTER_CONFIG_SERVICE_DATA_UUID_16_BIT_ENABLE 1
     OR push_bit SL_BT_HCI_FILTER_CONFIG_INCOMPLETE_UUID_16_BIT_ENABLE 1
     OR push_bit SL_BT_HCI_FILTER_CONFIG_COMPLETE_UUID_16_BIT_ENABLE 1
     OR push_bit SL_BT_HCI_FILTER_CONFIG_SERVICE_DATA_UUID_32_BIT_ENABLE 1
     OR push_bit SL_BT_HCI_FILTER_CONFIG_INCOMPLETE_UUID_32_BIT_ENABLE 1
     OR push_bit SL_BT_HCI_FILTER_CONFIG_COMPLETE_UUID_32_BIT_ENABLE 1"

definition SL_BT_HCI_FILTER_RSSI_MAX :: int where "SL_BT_HCI_FILTER_RSSI_MAX = - 30"
definition SL_BT_HCI_FILTER_RSSI_MIN :: int where "SL_BT_HCI_FILTER_RSSI_MIN = - 120"

definition SL_BT_HCI_CONFIGURE_FILTERING_OPCODE :: u16 where
  "SL_BT_HCI_CONFIGURE_FILTERING_OPCODE = 0xff11"
definition SL_BT_HCI_FILTER_CONFIG :: u32 where "SL_BT_HCI_FILTER_CONFIG = 1"
definition SL_BT_HCI_FILTER_RSSI_THRESHOLD :: u8 where
  "SL_BT_HCI_FILTER_RSSI_THRESHOLD = word_of_int (- 80)"

text \<open>
  The packed \<^verbatim>\<open>hci_le_extended_advertising_report_t\<close>: the byte offset of each field the
  filter reads, its size, and the two macros derived from it.
\<close>

definition offsetof_event_type :: nat where "offsetof_event_type = 4"
definition offsetof_rssi :: nat where "offsetof_rssi = 17"
definition offsetof_periodic_advertising_interval :: nat where
  "offsetof_periodic_advertising_interval = 18"
definition offsetof_data_length :: nat where "offsetof_data_length = 27"
definition offsetof_data :: nat where "offsetof_data = 28"
definition sizeof_hci_le_extended_advertising_report_t :: nat where
  "sizeof_hci_le_extended_advertising_report_t = 257"

definition HCI_ADV_REPORT_MAX_LEN :: nat where
  "HCI_ADV_REPORT_MAX_LEN = sizeof_hci_le_extended_advertising_report_t + 2"
definition RSSI_OFFSET :: nat where
  "RSSI_OFFSET = offsetof_periodic_advertising_interval + 2"

text \<open>
  The deployment's constants: the two capacities of \<^verbatim>\<open>sl_bt_hci_ext_adv_filter_config.h\<close>
  (byte counts: the configuration wizard stores the number of UUIDs times 2, respectively
  times 4; the shipped header has 0 for both) and the address of the static
  \<^verbatim>\<open>work_filter\<close>.
\<close>

record deployment =
  SL_BT_HCI_FILTER_16BIT_UUID_ARRAY_LEN :: nat
  SL_BT_HCI_FILTER_32BIT_UUID_ARRAY_LEN :: nat
  work_filter :: nat

definition WORK_MEMORY :: "deployment \<Rightarrow> nat" where
  "WORK_MEMORY b =
     SL_BT_HCI_FILTER_16BIT_UUID_ARRAY_LEN b + SL_BT_HCI_FILTER_32BIT_UUID_ARRAY_LEN b + 2"

definition sizeof_sli_work_filter :: "deployment \<Rightarrow> nat" where
  "sizeof_sli_work_filter b = 4 + 1 + WORK_MEMORY b"

subsection \<open>The filter's state\<close>

record sli_btctrl_hci_event_uuid =
  uuid_array_length :: u8
  uuid_array :: nat

record sli_btctrl_hci_event_filter =
  filter_config :: u32
  rssi_threshold :: u8
  uuids_16bit :: sli_btctrl_hci_event_uuid
  uuids_32bit :: sli_btctrl_hci_event_uuid

text \<open>The statics of the file, and the store the UUID pointers point into.\<close>

record filter_state =
  hci_event_filter :: sli_btctrl_hci_event_filter
  advertisment_report_incomplete :: bool
  store :: memory

definition read_u32 :: "memory \<Rightarrow> nat \<Rightarrow> u32" where
  "read_u32 m a =
     ucast (m a) OR push_bit 8 (ucast (m (a + 1)))
     OR push_bit 16 (ucast (m (a + 2))) OR push_bit 24 (ucast (m (a + 3)))"

definition read_u16 :: "memory \<Rightarrow> nat \<Rightarrow> u16" where
  "read_u16 m a = ucast (m a) OR push_bit 8 (ucast (m (a + 1)))"

definition ptr_add :: "memory \<Rightarrow> nat \<Rightarrow> memory" where
  "ptr_add p i = (\<lambda>k. p (i + k))"

text \<open>\<^verbatim>\<open>memcmp(p, q, n) == 0\<close>.\<close>

definition memcmp_equal :: "memory \<Rightarrow> memory \<Rightarrow> nat \<Rightarrow> bool" where
  "memcmp_equal p q n = (map p [0..<n] = map q [0..<n])"

text \<open>Zero-initialised statics, then \<^verbatim>\<open>sli_bt_hci_filter_init\<close>.\<close>

definition static_init :: "memory \<Rightarrow> filter_state" where
  "static_init m =
     \<lparr>hci_event_filter =
        \<lparr>filter_config = 0, rssi_threshold = 0,
         uuids_16bit = \<lparr>uuid_array_length = 0, uuid_array = 0\<rparr>,
         uuids_32bit = \<lparr>uuid_array_length = 0, uuid_array = 0\<rparr>\<rparr>,
      advertisment_report_incomplete = False,
      store = m\<rparr>"

definition sli_bt_hci_filter_init :: "filter_state \<Rightarrow> filter_state" where
  "sli_bt_hci_filter_init s =
     s\<lparr>hci_event_filter := (hci_event_filter s)
          \<lparr>filter_config := SL_BT_HCI_FILTER_CONFIG,
           rssi_threshold := SL_BT_HCI_FILTER_RSSI_THRESHOLD\<rparr>\<rparr>"

subsection \<open>Configuration\<close>

text \<open>
  \<^verbatim>\<open>sl_btctrl_hci_event_configure_filtering(void *filter)\<close>. The buffer is read as the
  packed \<^verbatim>\<open>struct sli_work_filter\<close>: \<^verbatim>\<open>config\<close> at offset 0 (little endian),
  \<^verbatim>\<open>rssi_threshold\<close> at offset 4, \<^verbatim>\<open>data\<close> from offset 5.
\<close>

definition sl_btctrl_hci_event_configure_filtering ::
  "deployment \<Rightarrow> nat \<Rightarrow> filter_state \<Rightarrow> sl_status \<times> filter_state" where
  "sl_btctrl_hci_event_configure_filtering b filter_ptr s =
    (if filter_ptr = 0 then (SL_STATUS_NULL_POINTER, s)
     else
       let config = read_u32 (store s) filter_ptr;
           threshold = store s (filter_ptr + 4);
           data = ptr_add (store s) (filter_ptr + 5)
       in
       if config AND NOT SL_BT_HCI_FILTER_CONFIG_MASK \<noteq> 0
       then (SL_STATUS_INVALID_PARAMETER, s)
       else if config AND SL_BT_HCI_FILTER_CONFIG_RSSI_ENABLE_MASK \<noteq> 0
               \<and> (sint threshold < SL_BT_HCI_FILTER_RSSI_MIN
                  \<or> sint threshold > SL_BT_HCI_FILTER_RSSI_MAX)
       then (SL_STATUS_INVALID_PARAMETER, s)
       else
         let uuid16_list_length = data 0 in
         if unat uuid16_list_length > SL_BT_HCI_FILTER_16BIT_UUID_ARRAY_LEN b
         then (SL_STATUS_INVALID_PARAMETER, s)
         else
           let uuid32_list_length = data (unat uuid16_list_length + 1) in
           if unat uuid32_list_length > SL_BT_HCI_FILTER_32BIT_UUID_ARRAY_LEN b
           then (SL_STATUS_INVALID_PARAMETER, s)
           else
             (SL_STATUS_OK,
              s\<lparr>hci_event_filter :=
                  \<lparr>filter_config = config,
                   rssi_threshold = threshold,
                   uuids_16bit =
                     \<lparr>uuid_array_length = uuid16_list_length,
                      uuid_array = (if uuid16_list_length > 0 then filter_ptr + 5 + 1 else 0)\<rparr>,
                   uuids_32bit =
                     \<lparr>uuid_array_length = uuid32_list_length,
                      uuid_array =
                        (if uuid32_list_length > 0
                         then filter_ptr + 5 + (unat uuid16_list_length + 2) else 0)\<rparr>\<rparr>\<rparr>))"

text \<open>
  Modelled from the spec: the command transport (\<^verbatim>\<open>sl_btctrl_hci_message_get_opcode\<close>,
  \<^verbatim>\<open>_get_length\<close>, \<^verbatim>\<open>_get_parameters\<close>, \<^verbatim>\<open>_set_response\<close>) is an external collaborator
  whose code is not among the sources. A command message is what its accessors report: the
  opcode, the length and the parameter bytes, each with the status the accessor returns.
\<close>

record sl_btctrl_hci_message =
  msg_opcode_status :: sl_status
  msg_opcode :: u16
  msg_length_status :: sl_status
  msg_length :: nat
  msg_parameters_status :: sl_status
  msg_parameters :: "u8 list"

text \<open>\<^verbatim>\<open>sl_btctrl_hci_message_get_parameters(hcimsg, dest, n)\<close> copies the first \<open>n\<close>
  parameter bytes to \<open>dest\<close> when it returns \<^verbatim>\<open>SL_STATUS_OK\<close>, and nothing otherwise.\<close>

definition copy_to :: "memory \<Rightarrow> nat \<Rightarrow> u8 list \<Rightarrow> memory" where
  "copy_to m dest bs =
     (\<lambda>a. if dest \<le> a \<and> a < dest + length bs then bs ! (a - dest) else m a)"

text \<open>
  \<^verbatim>\<open>hci_configure_filter_command\<close>: the result is whether the command was handled, the
  response status byte (if one was set) and the new state.
\<close>

definition hci_configure_filter_command ::
  "deployment \<Rightarrow> sl_btctrl_hci_message \<Rightarrow> filter_state \<Rightarrow> bool \<times> u8 option \<times> filter_state"
  where
  "hci_configure_filter_command b hcimsg s =
    (if msg_opcode_status hcimsg \<noteq> SL_STATUS_OK then (False, None, s)
     else if msg_opcode hcimsg \<noteq> SL_BT_HCI_CONFIGURE_FILTERING_OPCODE then (False, None, s)
     else
       let msg_len = msg_length hcimsg;
           min_length = (4 + 1) mod 256;
           status1 = (if msg_len < min_length then SL_STATUS_INVALID_PARAMETER
                      else msg_length_status hcimsg);
           max_length = sizeof_sli_work_filter b mod 256;
           status2 = (if msg_len > max_length then SL_STATUS_INVALID_PARAMETER else status1);
           status3 = (if status2 = SL_STATUS_OK then msg_parameters_status hcimsg else status2);
           s1 = (if status2 = SL_STATUS_OK \<and> status3 = SL_STATUS_OK
                 then s\<lparr>store := copy_to (store s) (work_filter b)
                                    (take msg_len (msg_parameters hcimsg))\<rparr>
                 else s);
           (status4, s2) =
              (if status3 = SL_STATUS_OK
               then sl_btctrl_hci_event_configure_filtering b (work_filter b) s1
               else (status3, s1))
       in (True, Some (if status4 = SL_STATUS_OK then BT_OK else BT_ERR_INVALID), s2))"

subsection \<open>Events\<close>

text \<open>
  Modelled from the spec: the event transport (\<^verbatim>\<open>sl_btctrl_hci_event_get_opcode\<close>,
  \<^verbatim>\<open>_get_length\<close>, \<^verbatim>\<open>_get_parameters\<close>) is an external collaborator whose code is not
  among the sources. An event is what its accessors report: the two opcodes, the length and
  the raw bytes (from the event code on), each with the status the accessor returns.
  \<^verbatim>\<open>sl_btctrl_hci_event_get_parameters(event, buffer, n, 0, &bytes_copied)\<close> copies the
  first \<open>n\<close> bytes of the event (fewer if the event is shorter) and reports how many.
\<close>

record sl_btctrl_hci_event =
  opcode_status :: sl_status
  opcode :: u8
  subevent_opcode :: u8
  length_status :: sl_status
  len :: nat
  parameters_status :: sl_status
  parameters :: "u8 list"

text \<open>
  The local \<^verbatim>\<open>buffer[HCI_ADV_REPORT_MAX_LEN] = { 0 }\<close> after the copy, as a function of the
  byte index. An index from \<^verbatim>\<open>HCI_ADV_REPORT_MAX_LEN\<close> on is outside the array: there the
  code reads whatever follows the array in memory, the parameter \<open>beyond\<close> (a copy
  longer than the array overwrites it). Bytes of the array that the copy does not reach are
  0.
\<close>

definition buffer_after_copy :: "u8 list \<Rightarrow> memory \<Rightarrow> memory" where
  "buffer_after_copy copied beyond =
     (\<lambda>i. if i < length copied then copied ! i
          else if i < HCI_ADV_REPORT_MAX_LEN then 0
          else beyond (i - HCI_ADV_REPORT_MAX_LEN))"

subsection \<open>The RSSI stage\<close>

definition filter_by_rssi ::
  "filter_state \<Rightarrow> sl_btctrl_hci_event \<Rightarrow> sl_btctrl_hci_event_filter_status \<times> filter_state"
  where
  "filter_by_rssi s event =
    (if filter_config (hci_event_filter s) AND SL_BT_HCI_FILTER_CONFIG_RSSI_ENABLE_MASK = 0
     then (EVENT_ACCEPT, s)
     else if opcode_status event \<noteq> SL_STATUS_OK then (EVENT_DISCARD, s)
     else if opcode event \<noteq> HCI_EVENT_LE_META_EVENT
             \<or> subevent_opcode event \<noteq> HCI_EVENT_LE_EXTENDED_ADVERTISING_REPORT
     then (EVENT_ACCEPT, s)
     else if length_status event \<noteq> SL_STATUS_OK then (EVENT_DISCARD, s)
     else if len event < RSSI_OFFSET then (EVENT_DISCARD, s)
     else
       let copied = take HCI_ADV_REPORT_MAX_LEN (parameters event);
           buffer = buffer_after_copy copied (\<lambda>_. 0);
           bytes_copied = length copied
       in
       if parameters_status event \<noteq> SL_STATUS_OK then (EVENT_DISCARD, s)
       else if bytes_copied < RSSI_OFFSET then (EVENT_DISCARD, s)
       else if sint (buffer offsetof_rssi) < sint (rssi_threshold (hci_event_filter s))
       then (EVENT_DISCARD, s)
       else (EVENT_ACCEPT, s))"

subsection \<open>The UUID matchers\<close>

text \<open>The loop of \<^verbatim>\<open>filter_service_data_uuid\<close>, from the counter \<open>i\<close> on.\<close>

partial_function (option) filter_service_data_uuid_loop ::
  "u8 \<Rightarrow> memory \<Rightarrow> u8 \<Rightarrow> memory \<Rightarrow> u8 \<Rightarrow> bool option" where
  "filter_service_data_uuid_loop uuid_size ad_data uuid_array_len uuid_arr i =
    (if i < uuid_array_len then
       (if memcmp_equal ad_data (ptr_add uuid_arr (unat i)) (unat uuid_size) then Some True
        else filter_service_data_uuid_loop uuid_size ad_data uuid_array_len uuid_arr
               (i + uuid_size))
     else Some False)"

definition filter_service_data_uuid :: "u8 \<Rightarrow> memory \<Rightarrow> u8 \<Rightarrow> memory \<Rightarrow> bool option" where
  "filter_service_data_uuid uuid_size ad_data uuid_array_len uuid_arr =
     filter_service_data_uuid_loop uuid_size ad_data uuid_array_len uuid_arr 0"

text \<open>The inner loop (counter \<open>j\<close>) and the outer loop (counter \<open>i\<close>) of
  \<^verbatim>\<open>sl_filter_list_of_service_class_uuids\<close>. The bound \<^verbatim>\<open>ad_len - 1\<close> is computed in
  \<^verbatim>\<open>int\<close>.\<close>

partial_function (option) service_class_uuids_inner ::
  "u8 \<Rightarrow> memory \<Rightarrow> u8 \<Rightarrow> memory \<Rightarrow> u8 \<Rightarrow> u8 \<Rightarrow> bool option" where
  "service_class_uuids_inner uuid_size ad_data uuid_array_len uuid_arr i j =
    (if j < uuid_array_len then
       (if memcmp_equal (ptr_add ad_data (unat i)) (ptr_add uuid_arr (unat j)) (unat uuid_size)
        then Some True
        else service_class_uuids_inner uuid_size ad_data uuid_array_len uuid_arr i
               (j + uuid_size))
     else Some False)"

partial_function (option) service_class_uuids_outer ::
  "u8 \<Rightarrow> u8 \<Rightarrow> memory \<Rightarrow> u8 \<Rightarrow> memory \<Rightarrow> u8 \<Rightarrow> bool option" where
  "service_class_uuids_outer uuid_size ad_len ad_data uuid_array_len uuid_arr i =
    (if uint i < uint ad_len - 1 then
       Option.bind (service_class_uuids_inner uuid_size ad_data uuid_array_len uuid_arr i 0)
         (\<lambda>found. if found then Some True
                   else service_class_uuids_outer uuid_size ad_len ad_data uuid_array_len
                          uuid_arr (i + uuid_size))
     else Some False)"

definition sl_filter_list_of_service_class_uuids ::
  "u8 \<Rightarrow> u8 \<Rightarrow> memory \<Rightarrow> u8 \<Rightarrow> memory \<Rightarrow> bool option" where
  "sl_filter_list_of_service_class_uuids uuid_size ad_len ad_data uuid_array_len uuid_arr =
     service_class_uuids_outer uuid_size ad_len ad_data uuid_array_len uuid_arr 0"

definition to_status :: "bool \<Rightarrow> sl_btctrl_hci_event_filter_status" where
  "to_status accepted = (if accepted then EVENT_ACCEPT else EVENT_DISCARD)"

definition filter_16bit_service ::
  "filter_state \<Rightarrow> memory \<Rightarrow> sl_btctrl_hci_event_filter_status option" where
  "filter_16bit_service s ad_data =
     map_option to_status
       (filter_service_data_uuid 2 ad_data
          (uuid_array_length (uuids_16bit (hci_event_filter s)))
          (ptr_add (store s) (uuid_array (uuids_16bit (hci_event_filter s)))))"

definition filter_32bit_service ::
  "filter_state \<Rightarrow> memory \<Rightarrow> sl_btctrl_hci_event_filter_status option" where
  "filter_32bit_service s ad_data =
     map_option to_status
       (filter_service_data_uuid 4 ad_data
          (uuid_array_length (uuids_32bit (hci_event_filter s)))
          (ptr_add (store s) (uuid_array (uuids_32bit (hci_event_filter s)))))"

definition filter_16bit_list ::
  "filter_state \<Rightarrow> u8 \<Rightarrow> memory \<Rightarrow> sl_btctrl_hci_event_filter_status option" where
  "filter_16bit_list s ad_len ad_data =
     map_option to_status
       (sl_filter_list_of_service_class_uuids 2 ad_len ad_data
          (uuid_array_length (uuids_16bit (hci_event_filter s)))
          (ptr_add (store s) (uuid_array (uuids_16bit (hci_event_filter s)))))"

definition filter_32bit_list ::
  "filter_state \<Rightarrow> u8 \<Rightarrow> memory \<Rightarrow> sl_btctrl_hci_event_filter_status option" where
  "filter_32bit_list s ad_len ad_data =
     map_option to_status
       (sl_filter_list_of_service_class_uuids 4 ad_len ad_data
          (uuid_array_length (uuids_32bit (hci_event_filter s)))
          (ptr_add (store s) (uuid_array (uuids_32bit (hci_event_filter s)))))"

definition config_bit :: "filter_state \<Rightarrow> nat \<Rightarrow> bool" where
  "config_bit s n = (filter_config (hci_event_filter s) AND push_bit n 1 \<noteq> 0)"

definition filter_ad_structure ::
  "filter_state \<Rightarrow> bool \<Rightarrow> bool \<Rightarrow> bool \<Rightarrow> bool \<Rightarrow> bool \<Rightarrow> bool \<Rightarrow> u8 \<Rightarrow> memory
     \<Rightarrow> sl_btctrl_hci_event_filter_status option" where
  "filter_ad_structure s uuid_16bit_service uuid_32bit_service uuid_16bit_incomplete
      uuid_16bit_complete uuid_32bit_incomplete uuid_32bit_complete ad_len ad_data =
    (if config_bit s SL_BT_HCI_FILTER_CONFIG_SERVICE_DATA_UUID_16_BIT_ENABLE
        \<and> uuid_16bit_service
     then filter_16bit_service s ad_data
     else if config_bit s SL_BT_HCI_FILTER_CONFIG_SERVICE_DATA_UUID_32_BIT_ENABLE
             \<and> uuid_32bit_service
     then filter_32bit_service s ad_data
     else if config_bit s SL_BT_HCI_FILTER_CONFIG_INCOMPLETE_UUID_16_BIT_ENABLE
             \<and> uuid_16bit_incomplete
     then filter_16bit_list s ad_len ad_data
     else if config_bit s SL_BT_HCI_FILTER_CONFIG_COMPLETE_UUID_16_BIT_ENABLE
             \<and> uuid_16bit_complete
     then filter_16bit_list s ad_len ad_data
     else if config_bit s SL_BT_HCI_FILTER_CONFIG_INCOMPLETE_UUID_32_BIT_ENABLE
             \<and> uuid_32bit_incomplete
     then filter_32bit_list s ad_len ad_data
     else if config_bit s SL_BT_HCI_FILTER_CONFIG_COMPLETE_UUID_32_BIT_ENABLE
             \<and> uuid_32bit_complete
     then filter_32bit_list s ad_len ad_data
     else Some EVENT_DISCARD)"

subsection \<open>The UUID stage\<close>

text \<open>
  One AD structure of the scan loop of \<^verbatim>\<open>filter_by_uuid\<close>: the body from the type tests to
  the test of the filter's status. \<open>Some True\<close>: the loop returns accept.
\<close>

definition apply_filter_accepts :: "filter_state \<Rightarrow> u8 \<Rightarrow> u8 \<Rightarrow> memory \<Rightarrow> bool option" where
  "apply_filter_accepts s ad_type ad_len ad_data =
    (let uuid_16bit_service = (ad_type = SL_BT_HCI_AD_TYPE_SERVICE_DATA_UUID_16_BIT);
         uuid_32bit_service = (ad_type = SL_BT_HCI_AD_TYPE_SERVICE_DATA_UUID_32_BIT);
         uuid_16bit_incomplete =
           (ad_type = SL_BT_HCI_AD_TYPE_INCOMPLETE_SERVICE_CLASS_UUID_16_BIT);
         uuid_16bit_complete = (ad_type = SL_BT_HCI_AD_TYPE_COMPLETE_SERVICE_CLASS_UUID_16_BIT);
         uuid_32bit_incomplete =
           (ad_type = SL_BT_HCI_AD_TYPE_INCOMPLETE_SERVICE_CLASS_UUID_32_BIT);
         uuid_32bit_complete = (ad_type = SL_BT_HCI_AD_TYPE_COMPLETE_SERVICE_CLASS_UUID_32_BIT);
         apply_filter = (uuid_16bit_service \<or> uuid_32bit_service \<or> uuid_16bit_incomplete
                         \<or> uuid_16bit_complete \<or> uuid_32bit_incomplete \<or> uuid_32bit_complete)
     in
     if apply_filter then
       map_option (\<lambda>status. status = EVENT_ACCEPT)
         (filter_ad_structure s uuid_16bit_service uuid_32bit_service uuid_16bit_incomplete
            uuid_16bit_complete uuid_32bit_incomplete uuid_32bit_complete ad_len ad_data)
     else Some False)"

text \<open>The \<^verbatim>\<open>while (data_len != 0)\<close> loop. \<^verbatim>\<open>data_len\<close> and \<^verbatim>\<open>current_idx\<close> are
  \<^verbatim>\<open>uint8_t\<close>; the indices \<^verbatim>\<open>current_idx + 1\<close> and \<^verbatim>\<open>current_idx + 2\<close> are \<^verbatim>\<open>int\<close>.\<close>

partial_function (option) scan_ad_structures ::
  "filter_state \<Rightarrow> memory \<Rightarrow> u8 \<Rightarrow> u8 \<Rightarrow> sl_btctrl_hci_event_filter_status option" where
  "scan_ad_structures s data data_len current_idx =
    (if data_len \<noteq> 0 then
       (let ad_len = data (unat current_idx);
            ad_type = data (unat current_idx + 1);
            ad_data = ptr_add data (unat current_idx + 2)
        in
        if ad_len > data_len then Some EVENT_DISCARD
        else
          Option.bind (apply_filter_accepts s ad_type ad_len ad_data)
            (\<lambda>accepted. if accepted then Some EVENT_ACCEPT
                         else scan_ad_structures s data (data_len - (ad_len + 1))
                                (current_idx + (ad_len + 1))))
     else Some EVENT_DISCARD)"

text \<open>The test \<^verbatim>\<open>ext_adv_report->event_type & (1 << 5)\<close> on the little-endian 16-bit field.\<close>

definition event_type_incomplete :: "memory \<Rightarrow> bool" where
  "event_type_incomplete buffer = (read_u16 buffer offsetof_event_type AND push_bit 5 1 \<noteq> 0)"

definition filter_by_uuid ::
  "memory \<Rightarrow> filter_state \<Rightarrow> sl_btctrl_hci_event
     \<Rightarrow> (sl_btctrl_hci_event_filter_status \<times> filter_state) option" where
  "filter_by_uuid beyond s event =
    (let mask = SL_BT_HCI_FILTER_CONFIG_MASK AND NOT SL_BT_HCI_FILTER_CONFIG_RSSI_ENABLE_MASK in
     if filter_config (hci_event_filter s) AND mask = 0 then Some (EVENT_ACCEPT, s)
     else if opcode_status event \<noteq> SL_STATUS_OK then Some (EVENT_DISCARD, s)
     else if opcode event \<noteq> HCI_EVENT_LE_META_EVENT
             \<or> subevent_opcode event \<noteq> HCI_EVENT_LE_EXTENDED_ADVERTISING_REPORT
     then Some (EVENT_ACCEPT, s)
     else if length_status event \<noteq> SL_STATUS_OK then Some (EVENT_DISCARD, s)
     else
       let copied = take (len event + 2) (parameters event);
           buffer = buffer_after_copy copied beyond;
           bytes_copied = length copied
       in
       if parameters_status event \<noteq> SL_STATUS_OK then Some (EVENT_DISCARD, s)
       else if bytes_copied \<noteq> len event + 2 then Some (EVENT_DISCARD, s)
       else
         if \<not> advertisment_report_incomplete s \<and> event_type_incomplete buffer
         then Some (EVENT_ACCEPT, s\<lparr>advertisment_report_incomplete := True\<rparr>)
         else if advertisment_report_incomplete s \<and> \<not> event_type_incomplete buffer
         then Some (EVENT_ACCEPT, s\<lparr>advertisment_report_incomplete := False\<rparr>)
         else
           map_option (\<lambda>status. (status, s))
             (scan_ad_structures s (ptr_add buffer offsetof_data)
                (buffer offsetof_data_length) 0))"

subsection \<open>AD structures, and what it means for one to match\<close>

text \<open>
  An AD structure is a type byte and a payload; in the AD data it is preceded by a length
  byte that counts the type byte and the payload.
\<close>

type_synonym ad_structure = "u8 \<times> u8 list"

fun encode_ads :: "ad_structure list \<Rightarrow> u8 list" where
  "encode_ads [] = []"
| "encode_ads ((ad_type, payload) # ads) =
     of_nat (length payload + 1) # ad_type # payload @ encode_ads ads"

text \<open>The rule bit an AD type falls under, and the matcher the source runs for it.\<close>

definition rule_of_type :: "u8 \<Rightarrow> nat option" where
  "rule_of_type ad_type =
    (if ad_type = SL_BT_HCI_AD_TYPE_SERVICE_DATA_UUID_16_BIT
     then Some SL_BT_HCI_FILTER_CONFIG_SERVICE_DATA_UUID_16_BIT_ENABLE
     else if ad_type = SL_BT_HCI_AD_TYPE_SERVICE_DATA_UUID_32_BIT
     then Some SL_BT_HCI_FILTER_CONFIG_SERVICE_DATA_UUID_32_BIT_ENABLE
     else if ad_type = SL_BT_HCI_AD_TYPE_INCOMPLETE_SERVICE_CLASS_UUID_16_BIT
     then Some SL_BT_HCI_FILTER_CONFIG_INCOMPLETE_UUID_16_BIT_ENABLE
     else if ad_type = SL_BT_HCI_AD_TYPE_COMPLETE_SERVICE_CLASS_UUID_16_BIT
     then Some SL_BT_HCI_FILTER_CONFIG_COMPLETE_UUID_16_BIT_ENABLE
     else if ad_type = SL_BT_HCI_AD_TYPE_INCOMPLETE_SERVICE_CLASS_UUID_32_BIT
     then Some SL_BT_HCI_FILTER_CONFIG_INCOMPLETE_UUID_32_BIT_ENABLE
     else if ad_type = SL_BT_HCI_AD_TYPE_COMPLETE_SERVICE_CLASS_UUID_32_BIT
     then Some SL_BT_HCI_FILTER_CONFIG_COMPLETE_UUID_32_BIT_ENABLE
     else None)"

definition uuid_width_of_type :: "u8 \<Rightarrow> nat" where
  "uuid_width_of_type ad_type =
    (if ad_type = SL_BT_HCI_AD_TYPE_SERVICE_DATA_UUID_16_BIT
        \<or> ad_type = SL_BT_HCI_AD_TYPE_INCOMPLETE_SERVICE_CLASS_UUID_16_BIT
        \<or> ad_type = SL_BT_HCI_AD_TYPE_COMPLETE_SERVICE_CLASS_UUID_16_BIT
     then 2 else 4)"

definition uuids_of_width :: "filter_state \<Rightarrow> nat \<Rightarrow> sli_btctrl_hci_event_uuid" where
  "uuids_of_width s w =
     (if w = 2 then uuids_16bit (hci_event_filter s) else uuids_32bit (hci_event_filter s))"

definition matcher_of_type :: "filter_state \<Rightarrow> u8 \<Rightarrow> u8 \<Rightarrow> memory \<Rightarrow> bool option" where
  "matcher_of_type s ad_type ad_len ad_data =
    (let w = uuid_width_of_type ad_type;
         n = uuid_array_length (uuids_of_width s w);
         arr = ptr_add (store s) (uuid_array (uuids_of_width s w))
     in
     if ad_type = SL_BT_HCI_AD_TYPE_SERVICE_DATA_UUID_16_BIT
        \<or> ad_type = SL_BT_HCI_AD_TYPE_SERVICE_DATA_UUID_32_BIT
     then filter_service_data_uuid (of_nat w) ad_data n arr
     else sl_filter_list_of_service_class_uuids (of_nat w) ad_len ad_data n arr)"

definition structure_matches :: "filter_state \<Rightarrow> u8 \<Rightarrow> u8 \<Rightarrow> memory \<Rightarrow> bool" where
  "structure_matches s ad_type ad_len ad_data =
    (case rule_of_type ad_type of
       None \<Rightarrow> False
     | Some n \<Rightarrow> config_bit s n \<and> matcher_of_type s ad_type ad_len ad_data = Some True)"

text \<open>Some structure of the list matches, each one read where it lies in the AD data:
  the first at index \<open>off\<close>, its payload from \<open>off + 2\<close>.\<close>

fun any_structure_matches :: "filter_state \<Rightarrow> memory \<Rightarrow> nat \<Rightarrow> ad_structure list \<Rightarrow> bool"
  where
  "any_structure_matches s data off [] = False"
| "any_structure_matches s data off ((ad_type, payload) # ads) =
     (structure_matches s ad_type (of_nat (length payload + 1)) (ptr_add data (off + 2))
      \<or> any_structure_matches s data (off + length payload + 2) ads)"

text \<open>The scan loop, unrolled along a list of AD structures.\<close>

fun scan_list ::
  "filter_state \<Rightarrow> memory \<Rightarrow> nat \<Rightarrow> ad_structure list
     \<Rightarrow> sl_btctrl_hci_event_filter_status option" where
  "scan_list s data off [] = Some EVENT_DISCARD"
| "scan_list s data off ((ad_type, payload) # ads) =
     Option.bind
       (apply_filter_accepts s ad_type (of_nat (length payload + 1)) (ptr_add data (off + 2)))
       (\<lambda>accepted. if accepted then Some EVENT_ACCEPT
                    else scan_list s data (off + length payload + 2) ads)"

text \<open>
  The event reaches the scan loop of \<^verbatim>\<open>filter_by_uuid\<close>: a UUID rule is enabled, the event is
  an Extended Advertising Report, it is copied in full, and the fragment test passes it on
  (the report's incomplete flag agrees with \<^verbatim>\<open>advertisment_report_incomplete\<close>).
\<close>

definition uuid_rules_enabled :: "filter_state \<Rightarrow> bool" where
  "uuid_rules_enabled s =
     (filter_config (hci_event_filter s)
        AND (SL_BT_HCI_FILTER_CONFIG_MASK AND NOT SL_BT_HCI_FILTER_CONFIG_RSSI_ENABLE_MASK) \<noteq> 0)"

definition decoded_report :: "sl_btctrl_hci_event \<Rightarrow> bool" where
  "decoded_report event =
     (opcode_status event = SL_STATUS_OK
      \<and> opcode event = HCI_EVENT_LE_META_EVENT
      \<and> subevent_opcode event = HCI_EVENT_LE_EXTENDED_ADVERTISING_REPORT
      \<and> length_status event = SL_STATUS_OK
      \<and> parameters_status event = SL_STATUS_OK
      \<and> len event + 2 \<le> length (parameters event))"

definition report_buffer :: "memory \<Rightarrow> sl_btctrl_hci_event \<Rightarrow> memory" where
  "report_buffer beyond event =
     buffer_after_copy (take (len event + 2) (parameters event)) beyond"

definition reaches_scan :: "memory \<Rightarrow> filter_state \<Rightarrow> sl_btctrl_hci_event \<Rightarrow> bool" where
  "reaches_scan beyond s event =
     (uuid_rules_enabled s \<and> decoded_report event
      \<and> (advertisment_report_incomplete s
           = event_type_incomplete (report_buffer beyond event)))"

text \<open>Both UUID lists are short enough for the \<^verbatim>\<open>uint8_t\<close> counters of the matchers:
  a counter that steps by 2 (by 4) past a list of 255 (of 253 or more) bytes wraps to 0.\<close>

definition uuid_lists_bounded :: "filter_state \<Rightarrow> bool" where
  "uuid_lists_bounded s =
     (unat (uuid_array_length (uuids_16bit (hci_event_filter s))) \<le> 254
      \<and> unat (uuid_array_length (uuids_32bit (hci_event_filter s))) \<le> 252)"

text \<open>The AD data of the report is the encoding of the structures \<open>ads\<close>, of the length
  its \<^verbatim>\<open>data_length\<close> field declares, within the 229 bytes of \<^verbatim>\<open>data\<close>.\<close>

definition report_carries :: "sl_btctrl_hci_event \<Rightarrow> ad_structure list \<Rightarrow> bool" where
  "report_carries event ads =
     (let copied = take (len event + 2) (parameters event) in
      offsetof_data \<le> length copied
      \<and> drop offsetof_data copied = encode_ads ads
      \<and> copied ! offsetof_data_length = of_nat (length (encode_ads ads))
      \<and> length (encode_ads ads) \<le> 229)"

text \<open>Every structure of the list that falls under an enabled rule meets an empty UUID
  list; and the same of the configuration alone: every enabled rule has an empty list.\<close>

definition only_empty_list_rules :: "filter_state \<Rightarrow> ad_structure list \<Rightarrow> bool" where
  "only_empty_list_rules s ads =
     list_all (\<lambda>ad. case rule_of_type (fst ad) of
                 None \<Rightarrow> True
               | Some n \<Rightarrow> config_bit s n \<longrightarrow>
                   uuid_array_length (uuids_of_width s (uuid_width_of_type (fst ad))) = 0) ads"

definition enabled_rules_have_empty_lists :: "filter_state \<Rightarrow> bool" where
  "enabled_rules_have_empty_lists s =
     ((config_bit s SL_BT_HCI_FILTER_CONFIG_SERVICE_DATA_UUID_16_BIT_ENABLE
       \<or> config_bit s SL_BT_HCI_FILTER_CONFIG_INCOMPLETE_UUID_16_BIT_ENABLE
       \<or> config_bit s SL_BT_HCI_FILTER_CONFIG_COMPLETE_UUID_16_BIT_ENABLE
       \<longrightarrow> uuid_array_length (uuids_16bit (hci_event_filter s)) = 0)
      \<and> (config_bit s SL_BT_HCI_FILTER_CONFIG_SERVICE_DATA_UUID_32_BIT_ENABLE
       \<or> config_bit s SL_BT_HCI_FILTER_CONFIG_INCOMPLETE_UUID_32_BIT_ENABLE
       \<or> config_bit s SL_BT_HCI_FILTER_CONFIG_COMPLETE_UUID_32_BIT_ENABLE
       \<longrightarrow> uuid_array_length (uuids_32bit (hci_event_filter s)) = 0))"

text \<open>
  An AD structure of one of the six UUID types carries whole UUIDs: service data begins with
  a UUID of the width of its type, a list of service-class UUIDs is a whole number of them.
  The matchers then read inside the payload of the structure only.
\<close>

definition carries_whole_uuids :: "ad_structure \<Rightarrow> bool" where
  "carries_whole_uuids ad =
     (case rule_of_type (fst ad) of
        None \<Rightarrow> True
      | Some n \<Rightarrow>
          if fst ad = SL_BT_HCI_AD_TYPE_SERVICE_DATA_UUID_16_BIT
             \<or> fst ad = SL_BT_HCI_AD_TYPE_SERVICE_DATA_UUID_32_BIT
          then uuid_width_of_type (fst ad) \<le> length (snd ad)
          else uuid_width_of_type (fst ad) dvd length (snd ad))"

text \<open>
  The scan of the report, if the report reaches it, reads inside the AD data: the AD data is
  the encoding of the structures \<open>ads\<close>, and each of them carries whole UUIDs.
\<close>

definition scan_reads_inside ::
  "memory \<Rightarrow> filter_state \<Rightarrow> sl_btctrl_hci_event \<Rightarrow> ad_structure list \<Rightarrow> bool" where
  "scan_reads_inside beyond s event ads =
     (reaches_scan beyond s event
        \<longrightarrow> report_carries event ads \<and> list_all carries_whole_uuids ads)"

subsection \<open>Concrete inputs\<close>

definition zero_memory :: memory where "zero_memory = (\<lambda>_. 0)"

text \<open>A single-report event: the header fields, then \<open>data_length\<close> and the AD data.\<close>

definition example_report :: "u8 \<Rightarrow> u8 \<Rightarrow> u8 \<Rightarrow> u8 list \<Rightarrow> u8 list" where
  "example_report event_type_low rssi data_length data =
     [0x3e, of_nat (26 + length data), 0x0d, 1, event_type_low, 0, 0, 1, 2, 3, 4, 5, 6, 1, 0,
      0, 0, rssi, 0, 0, 0, 0, 0, 0, 0, 0, 0, data_length] @ data"

definition example_event :: "u8 \<Rightarrow> u8 \<Rightarrow> u8 \<Rightarrow> u8 list \<Rightarrow> sl_btctrl_hci_event" where
  "example_event event_type_low rssi data_length data =
     \<lparr>opcode_status = SL_STATUS_OK, opcode = 0x3e, subevent_opcode = 0x0d,
      length_status = SL_STATUS_OK, len = 26 + length data,
      parameters_status = SL_STATUS_OK,
      parameters = example_report event_type_low rssi data_length data\<rparr>"

definition example_state :: "u32 \<Rightarrow> u8 \<Rightarrow> filter_state" where
  "example_state config threshold =
     (static_init zero_memory)\<lparr>hci_event_filter :=
        (hci_event_filter (static_init zero_memory))
          \<lparr>filter_config := config, rssi_threshold := threshold\<rparr>\<rparr>"

text \<open>A deployment with room for one 16-bit and one 32-bit UUID.\<close>

definition example_deployment :: deployment where
  "example_deployment =
     \<lparr>SL_BT_HCI_FILTER_16BIT_UUID_ARRAY_LEN = 2, SL_BT_HCI_FILTER_32BIT_UUID_ARRAY_LEN = 4,
      work_filter = 100\<rparr>"

text \<open>Service-data rule for 16-bit UUIDs, the list \<open>{0x180F}\<close> (2 bytes), the list
  \<open>{0x0000180A}\<close> (4 bytes).\<close>

definition example_config_bytes :: "u8 list" where
  "example_config_bytes = [0x02, 0, 0, 0,  0,  2, 0x0F, 0x18,  4, 0x0A, 0x18, 0, 0]"

definition example_uuid_state :: filter_state where
  "example_uuid_state =
     \<lparr>hci_event_filter =
        \<lparr>filter_config = 0x02, rssi_threshold = 0,
         uuids_16bit = \<lparr>uuid_array_length = 2, uuid_array = 106\<rparr>,
         uuids_32bit = \<lparr>uuid_array_length = 4, uuid_array = 109\<rparr>\<rparr>,
      advertisment_report_incomplete = False,
      store = copy_to zero_memory 100 example_config_bytes\<rparr>"

text \<open>A command of six bytes that announces two bytes of 16-bit UUIDs.\<close>

definition short_command :: sl_btctrl_hci_message where
  "short_command =
     \<lparr>msg_opcode_status = SL_STATUS_OK, msg_opcode = 0xff11,
      msg_length_status = SL_STATUS_OK, msg_length = 6,
      msg_parameters_status = SL_STATUS_OK,
      msg_parameters = [0x02, 0, 0, 0, 0, 2]\<rparr>"

text \<open>Four bytes that may lie after the local buffer: an AD structure of service data
  for the UUID \<open>0x180F\<close>.\<close>

definition example_stack :: memory where
  "example_stack = copy_to zero_memory 0 [1, 0x16, 0x0F, 0x18]"

text \<open>AD data with a manufacturer structure and service data for \<open>0x180F\<close>; AD data with
  service data for \<open>0x180A\<close>.\<close>

definition matching_data :: "u8 list" where
  "matching_data = [3, 0xFF, 1, 2, 3, 0x16, 0x0F, 0x18]"

definition other_data :: "u8 list" where
  "other_data = [3, 0x16, 0x0A, 0x18]"

section \<open>Properties\<close>

lemmas filter_consts =
  BT_OK_def BT_ERR_INVALID_def HCI_EVENT_LE_META_EVENT_def
  HCI_EVENT_LE_EXTENDED_ADVERTISING_REPORT_def
  SL_BT_HCI_AD_TYPE_INCOMPLETE_SERVICE_CLASS_UUID_16_BIT_def
  SL_BT_HCI_AD_TYPE_COMPLETE_SERVICE_CLASS_UUID_16_BIT_def
  SL_BT_HCI_AD_TYPE_INCOMPLETE_SERVICE_CLASS_UUID_32_BIT_def
  SL_BT_HCI_AD_TYPE_COMPLETE_SERVICE_CLASS_UUID_32_BIT_def
  SL_BT_HCI_AD_TYPE_SERVICE_DATA_UUID_16_BIT_def
  SL_BT_HCI_AD_TYPE_SERVICE_DATA_UUID_32_BIT_def
  SL_BT_HCI_FILTER_CONFIG_RSSI_ENABLE_def
  SL_BT_HCI_FILTER_CONFIG_SERVICE_DATA_UUID_16_BIT_ENABLE_def
  SL_BT_HCI_FILTER_CONFIG_INCOMPLETE_UUID_16_BIT_ENABLE_def
  SL_BT_HCI_FILTER_CONFIG_COMPLETE_UUID_16_BIT_ENABLE_def
  SL_BT_HCI_FILTER_CONFIG_SERVICE_DATA_UUID_32_BIT_ENABLE_def
  SL_BT_HCI_FILTER_CONFIG_INCOMPLETE_UUID_32_BIT_ENABLE_def
  SL_BT_HCI_FILTER_CONFIG_COMPLETE_UUID_32_BIT_ENABLE_def
  SL_BT_HCI_FILTER_CONFIG_RSSI_ENABLE_MASK_def SL_BT_HCI_FILTER_CONFIG_MASK_def
  SL_BT_HCI_FILTER_RSSI_MAX_def SL_BT_HCI_FILTER_RSSI_MIN_def
  SL_BT_HCI_CONFIGURE_FILTERING_OPCODE_def SL_BT_HCI_FILTER_CONFIG_def
  SL_BT_HCI_FILTER_RSSI_THRESHOLD_def offsetof_event_type_def offsetof_rssi_def
  offsetof_periodic_advertising_interval_def offsetof_data_length_def offsetof_data_def
  sizeof_hci_le_extended_advertising_report_t_def HCI_ADV_REPORT_MAX_LEN_def RSSI_OFFSET_def

lemmas example_defs =
  zero_memory_def example_report_def example_event_def example_state_def static_init_def
  example_deployment_def example_config_bytes_def example_uuid_state_def short_command_def
  example_stack_def matching_data_def other_data_def

subsection \<open>The matcher loops return\<close>

lemma u8_step:
  fixes i sz :: u8
  assumes "unat i + unat sz < 256" "0 < sz"
  shows "256 - unat (i + sz) < 256 - unat i"
proof -
  have "unat (i + sz) = unat i + unat sz"
    using assms(1) by (simp add: unat_add_lem [THEN iffD1])
  moreover have "0 < unat sz"
    using assms(2) by (simp add: unat_gt_0)
  ultimately show ?thesis using assms(1) by arith
qed

lemma service_loop_returns:
  assumes "unat n + unat sz \<le> 256" "0 < sz"
  shows "\<exists>r. filter_service_data_uuid_loop sz ad n arr i = Some r"
proof (induction "256 - unat i" arbitrary: i rule: less_induct)
  case less
  show ?case
  proof (cases "i < n")
    case False
    then show ?thesis by (subst filter_service_data_uuid_loop.simps) auto
  next
    case True
    then have "unat i < unat n" by (simp add: word_less_nat_alt)
    with assms have "unat i + unat sz < 256" by arith
    then have "256 - unat (i + sz) < 256 - unat i" using assms(2) by (rule u8_step)
    from less[OF this] show ?thesis
      by (subst filter_service_data_uuid_loop.simps) (auto simp: True)
  qed
qed

lemma inner_loop_returns:
  assumes "unat n + unat sz \<le> 256" "0 < sz"
  shows "\<exists>r. service_class_uuids_inner sz ad n arr i j = Some r"
proof (induction "256 - unat j" arbitrary: j rule: less_induct)
  case less
  show ?case
  proof (cases "j < n")
    case False
    then show ?thesis by (subst service_class_uuids_inner.simps) auto
  next
    case True
    then have "unat j < unat n" by (simp add: word_less_nat_alt)
    with assms have "unat j + unat sz < 256" by arith
    then have "256 - unat (j + sz) < 256 - unat j" using assms(2) by (rule u8_step)
    from less[OF this] show ?thesis
      by (subst service_class_uuids_inner.simps) (auto simp: True)
  qed
qed

lemma outer_loop_returns:
  assumes "unat ad_len + unat sz \<le> 257" "0 < sz"
    and inner: "\<And>i. \<exists>r. service_class_uuids_inner sz ad n arr i 0 = Some r"
  shows "\<exists>r. service_class_uuids_outer sz ad_len ad n arr i = Some r"
proof (induction "256 - unat i" arbitrary: i rule: less_induct)
  case less
  show ?case
  proof (cases "uint i < uint ad_len - 1")
    case False
    then show ?thesis by (subst service_class_uuids_outer.simps) auto
  next
    case True
    then have "int (unat i) < int (unat ad_len) - 1" by simp
    then have "unat i + 1 < unat ad_len" by arith
    with assms have "unat i + unat sz < 256" by arith
    then have "256 - unat (i + sz) < 256 - unat i" using assms(2) by (rule u8_step)
    from less[OF this] obtain r where r: "service_class_uuids_outer sz ad_len ad n arr (i + sz) = Some r"
      by blast
    from inner obtain q where q: "service_class_uuids_inner sz ad n arr i 0 = Some q" by blast
    show ?thesis
      by (subst service_class_uuids_outer.simps) (auto simp: True q r)
  qed
qed

lemma inner_loop_empty: "service_class_uuids_inner sz ad 0 arr i j = Some False"
  by (subst service_class_uuids_inner.simps) simp

lemma service_loop_empty: "filter_service_data_uuid_loop sz ad 0 arr i = Some False"
  by (subst filter_service_data_uuid_loop.simps) simp

lemma outer_loop_empty_partial:
  assumes "service_class_uuids_outer sz ad_len ad n arr i = Some r"
  shows "n = 0 \<longrightarrow> \<not> r"
proof (rule service_class_uuids_outer.raw_induct
    [where P = "\<lambda>sz ad_len ad n arr i r. n = 0 \<longrightarrow> \<not> r", OF _ assms])
  fix f sz ad_len ad n arr i r
  assume "\<And>sz ad_len ad n arr i r. f sz ad_len ad n arr i = Some r \<Longrightarrow> n = 0 \<longrightarrow> \<not> r"
    and "(if uint i < uint ad_len - 1
          then Option.bind (service_class_uuids_inner sz ad n arr i 0)
                 (\<lambda>found. if found then Some True else f sz ad_len ad n arr (i + sz))
          else Some False) = Some r"
  then show "n = 0 \<longrightarrow> \<not> r"
    by (fastforce simp: inner_loop_empty split: if_splits)
qed

lemma outer_loop_empty:
  assumes "unat ad_len + unat sz \<le> 257" "0 < sz"
  shows "service_class_uuids_outer sz ad_len ad 0 arr i = Some False"
proof -
  from outer_loop_returns[OF assms, of ad 0 arr i] obtain r
    where r: "service_class_uuids_outer sz ad_len ad 0 arr i = Some r"
    by (auto simp: inner_loop_empty)
  with outer_loop_empty_partial[OF r] show ?thesis by simp
qed

subsection \<open>The scan loop along an encoded list of AD structures\<close>

lemma unat_of_nat_u8: "n < 256 \<Longrightarrow> unat (of_nat n :: u8) = n"
  by (simp add: unat_of_nat)

lemma scan_step:
  assumes "data_len \<noteq> 0" "\<not> data (unat idx) > data_len"
  shows "scan_ad_structures s data data_len idx =
           Option.bind (apply_filter_accepts s (data (unat idx + 1)) (data (unat idx))
                          (ptr_add data (unat idx + 2)))
             (\<lambda>accepted. if accepted then Some EVENT_ACCEPT
                else scan_ad_structures s data (data_len - (data (unat idx) + 1))
                       (idx + (data (unat idx) + 1)))"
  using assms by (subst scan_ad_structures.simps) (simp add: Let_def)

lemma scan_done: "scan_ad_structures s data 0 idx = Some EVENT_DISCARD"
  by (subst scan_ad_structures.simps) simp

lemma scan_encoded:
  assumes "\<forall>j<length (encode_ads ads). data (off + j) = encode_ads ads ! j"
    and "off + length (encode_ads ads) \<le> 255"
  shows "scan_ad_structures s data (of_nat (length (encode_ads ads))) (of_nat off)
           = scan_list s data off ads"
  using assms
proof (induction ads arbitrary: off)
  case Nil
  show ?case by (simp add: scan_done)
next
  case (Cons ad ads)
  obtain t p where ad: "ad = (t, p)" by (cases ad)
  let ?L = "length (encode_ads ads)"
  define dl where "dl = length p + 2 + ?L"
  define al :: u8 where "al = of_nat (length p + 1)"
  define dlw :: u8 where "dlw = of_nat dl"
  define idx :: u8 where "idx = of_nat off"
  have len': "length (encode_ads ((t, p) # ads)) = dl" by (simp add: dl_def)
  have len: "length (encode_ads (ad # ads)) = dl" by (simp add: ad dl_def)
  have bound: "off + dl \<le> 255"
    using Cons.prems(2) by (simp add: len)
  have agree: "\<And>j. j < dl \<Longrightarrow> data (off + j) = encode_ads ((t, p) # ads) ! j"
    using Cons.prems(1) unfolding ad len' by blast
  have d0: "data off = al" using agree[of 0] by (simp add: dl_def al_def)
  have d1: "data (off + 1) = t" using agree[of 1] by (simp add: dl_def)
  have rest: "\<forall>j<?L. data (off + length p + 2 + j) = encode_ads ads ! j"
  proof (intro allI impI)
    fix j assume "j < ?L"
    then have "data (off + (length p + 2 + j)) = encode_ads ((t, p) # ads) ! (length p + 2 + j)"
      by (intro agree) (simp add: dl_def)
    also have "\<dots> = encode_ads ads ! j"
      by (simp add: nth_append)
    finally show "data (off + length p + 2 + j) = encode_ads ads ! j"
      by (simp add: add.assoc)
  qed
  have IH: "scan_ad_structures s data (of_nat ?L) (of_nat (off + length p + 2))
              = scan_list s data (off + length p + 2) ads"
    using rest bound by (intro Cons.IH) (simp_all add: dl_def)
  have u_idx: "unat idx = off" using bound by (simp add: idx_def unat_of_nat_u8)
  have u_dl: "unat dlw = dl" using bound by (simp add: dlw_def unat_of_nat_u8)
  have "length p + 1 < 256" using bound by (simp add: dl_def)
  then have u_al: "unat al = length p + 1" unfolding al_def by (rule unat_of_nat_u8)
  have nz: "dlw \<noteq> 0"
  proof
    assume "dlw = 0"
    then have "unat dlw = 0" by simp
    then show False by (simp add: u_dl dl_def)
  qed
  have le: "\<not> al > dlw"
    by (simp add: word_less_nat_alt u_al u_dl dl_def)
  have sub: "dlw - (al + 1) = of_nat ?L"
    by (simp add: dlw_def al_def dl_def)
  have nxt: "idx + (al + 1) = of_nat (off + length p + 2)"
    by (simp add: idx_def al_def)
  have le': "\<not> data (unat idx) > dlw" by (simp only: u_idx d0 le not_False_eq_True)
  note st = scan_step[of dlw data idx s, OF nz le', unfolded u_idx d0 d1 sub nxt IH]
  have "scan_ad_structures s data dlw idx = scan_list s data off ((t, p) # ads)"
    by (simp only: st scan_list.simps al_def)
  then show ?case
    by (simp only: len' ad dlw_def idx_def)
qed

subsection \<open>One AD structure\<close>

lemma to_status_accept [simp]: "(to_status r = EVENT_ACCEPT) = r"
  by (simp add: to_status_def)

lemma accepts_service_16:
  "apply_filter_accepts s 0x16 l d =
     (if config_bit s 1 then map_option (\<lambda>st. st = EVENT_ACCEPT) (filter_16bit_service s d)
      else Some False)"
  by (simp add: apply_filter_accepts_def filter_ad_structure_def filter_consts)

lemma accepts_service_32:
  "apply_filter_accepts s 0x20 l d =
     (if config_bit s 4 then map_option (\<lambda>st. st = EVENT_ACCEPT) (filter_32bit_service s d)
      else Some False)"
  by (simp add: apply_filter_accepts_def filter_ad_structure_def filter_consts)

lemma accepts_incomplete_16:
  "apply_filter_accepts s 0x02 l d =
     (if config_bit s 2 then map_option (\<lambda>st. st = EVENT_ACCEPT) (filter_16bit_list s l d)
      else Some False)"
  by (simp add: apply_filter_accepts_def filter_ad_structure_def filter_consts)

lemma accepts_complete_16:
  "apply_filter_accepts s 0x03 l d =
     (if config_bit s 3 then map_option (\<lambda>st. st = EVENT_ACCEPT) (filter_16bit_list s l d)
      else Some False)"
  by (simp add: apply_filter_accepts_def filter_ad_structure_def filter_consts)

lemma accepts_incomplete_32:
  "apply_filter_accepts s 0x04 l d =
     (if config_bit s 5 then map_option (\<lambda>st. st = EVENT_ACCEPT) (filter_32bit_list s l d)
      else Some False)"
  by (simp add: apply_filter_accepts_def filter_ad_structure_def filter_consts)

lemma accepts_complete_32:
  "apply_filter_accepts s 0x05 l d =
     (if config_bit s 6 then map_option (\<lambda>st. st = EVENT_ACCEPT) (filter_32bit_list s l d)
      else Some False)"
  by (simp add: apply_filter_accepts_def filter_ad_structure_def filter_consts)

lemma accepts_other:
  "t \<noteq> 0x16 \<Longrightarrow> t \<noteq> 0x20 \<Longrightarrow> t \<noteq> 0x02 \<Longrightarrow> t \<noteq> 0x03 \<Longrightarrow> t \<noteq> 0x04 \<Longrightarrow> t \<noteq> 0x05
     \<Longrightarrow> apply_filter_accepts s t l d = Some False"
  by (simp add: apply_filter_accepts_def filter_consts)

lemmas accepts_by_type =
  accepts_service_16 accepts_service_32 accepts_incomplete_16 accepts_complete_16
  accepts_incomplete_32 accepts_complete_32

lemma ad_type_cases:
  fixes t :: u8
  obtains "t = 0x16" | "t = 0x20" | "t = 0x02" | "t = 0x03" | "t = 0x04" | "t = 0x05"
  | "t \<noteq> 0x16" "t \<noteq> 0x20" "t \<noteq> 0x02" "t \<noteq> 0x03" "t \<noteq> 0x04" "t \<noteq> 0x05"
  by blast

lemmas matcher_defs =
  filter_16bit_service_def filter_32bit_service_def filter_16bit_list_def filter_32bit_list_def
  structure_matches_def rule_of_type_def matcher_of_type_def uuid_width_of_type_def
  uuids_of_width_def

lemma apply_filter_accepts_eq:
  assumes "\<And>n. rule_of_type t = Some n \<Longrightarrow> config_bit s n
             \<Longrightarrow> \<exists>r. matcher_of_type s t l d = Some r"
  shows "apply_filter_accepts s t l d = Some (structure_matches s t l d)"
proof (cases t rule: ad_type_cases)
  case 1
  with assms[of 1] show ?thesis
    by (auto simp: accepts_service_16 matcher_defs filter_consts Let_def)
next
  case 2
  with assms[of 4] show ?thesis
    by (auto simp: accepts_service_32 matcher_defs filter_consts Let_def)
next
  case 3
  with assms[of 2] show ?thesis
    by (auto simp: accepts_incomplete_16 matcher_defs filter_consts Let_def)
next
  case 4
  with assms[of 3] show ?thesis
    by (auto simp: accepts_complete_16 matcher_defs filter_consts Let_def)
next
  case 5
  with assms[of 5] show ?thesis
    by (auto simp: accepts_incomplete_32 matcher_defs filter_consts Let_def)
next
  case 6
  with assms[of 6] show ?thesis
    by (auto simp: accepts_complete_32 matcher_defs filter_consts Let_def)
next
  case 7
  then show ?thesis
    by (simp add: accepts_other structure_matches_def rule_of_type_def filter_consts)
qed

subsection \<open>From the event to the scan\<close>

lemma matcher_returns:
  assumes "uuid_lists_bounded s" "unat l \<le> 253"
  shows "\<exists>r. matcher_of_type s t l d = Some r"
proof -
  have s2: "\<exists>r. filter_service_data_uuid 2 d (uuid_array_length (uuids_16bit (hci_event_filter s))) arr = Some r" for arr
    unfolding filter_service_data_uuid_def
    using assms(1) by (intro service_loop_returns) (simp_all add: uuid_lists_bounded_def)
  have s4: "\<exists>r. filter_service_data_uuid 4 d (uuid_array_length (uuids_32bit (hci_event_filter s))) arr = Some r" for arr
    unfolding filter_service_data_uuid_def
    using assms(1) by (intro service_loop_returns) (simp_all add: uuid_lists_bounded_def)
  have l2: "\<exists>r. sl_filter_list_of_service_class_uuids 2 l d (uuid_array_length (uuids_16bit (hci_event_filter s))) arr = Some r" for arr
    unfolding sl_filter_list_of_service_class_uuids_def
    using assms by (intro outer_loop_returns inner_loop_returns) (simp_all add: uuid_lists_bounded_def)
  have l4: "\<exists>r. sl_filter_list_of_service_class_uuids 4 l d (uuid_array_length (uuids_32bit (hci_event_filter s))) arr = Some r" for arr
    unfolding sl_filter_list_of_service_class_uuids_def
    using assms by (intro outer_loop_returns inner_loop_returns) (simp_all add: uuid_lists_bounded_def)
  show ?thesis
    using s2 s4 l2 l4
    by (simp add: matcher_of_type_def uuid_width_of_type_def uuids_of_width_def Let_def)
qed

lemma encode_ads_length_Cons:
  "length (encode_ads ((t, p) # ads)) = length p + 2 + length (encode_ads ads)"
  by simp

lemma scan_list_any:
  assumes "uuid_lists_bounded s" "length (encode_ads ads) \<le> 229"
  shows "scan_list s data off ads =
           Some (if any_structure_matches s data off ads then EVENT_ACCEPT else EVENT_DISCARD)"
  using assms(2)
proof (induction ads arbitrary: off)
  case Nil
  show ?case by simp
next
  case (Cons ad ads)
  obtain t p where ad: "ad = (t, p)" by (cases ad)
  from Cons.prems have b: "length p + 1 \<le> 253" "length (encode_ads ads) \<le> 229"
    by (simp_all add: ad)
  then have "unat (of_nat (length p + 1) :: u8) \<le> 253"
    by (subst unat_of_nat_u8) simp_all
  then have acc: "apply_filter_accepts s t (of_nat (length p + 1)) (ptr_add data (off + 2))
        = Some (structure_matches s t (of_nat (length p + 1)) (ptr_add data (off + 2)))"
    by (intro apply_filter_accepts_eq matcher_returns assms(1))
  show ?case
    unfolding ad scan_list.simps any_structure_matches.simps acc Cons.IH[OF b(2)]
    by simp
qed

lemma filter_by_uuid_reaches_scan:
  assumes "reaches_scan beyond s event"
  shows "filter_by_uuid beyond s event =
           map_option (\<lambda>status. (status, s))
             (scan_ad_structures s (ptr_add (report_buffer beyond event) offsetof_data)
                (report_buffer beyond event offsetof_data_length) 0)"
  using assms
  by (auto simp: filter_by_uuid_def reaches_scan_def uuid_rules_enabled_def decoded_report_def
      report_buffer_def Let_def)

lemma report_carries_scan:
  assumes "decoded_report event" "report_carries event ads"
  shows "scan_ad_structures s (ptr_add (report_buffer beyond event) offsetof_data)
           (report_buffer beyond event offsetof_data_length) 0 =
         scan_list s (ptr_add (report_buffer beyond event) offsetof_data) 0 ads"
proof -
  let ?copied = "take (len event + 2) (parameters event)"
  let ?data = "ptr_add (report_buffer beyond event) offsetof_data"
  from assms(2) have c: "offsetof_data \<le> length ?copied"
    "drop offsetof_data ?copied = encode_ads ads"
    "?copied ! offsetof_data_length = of_nat (length (encode_ads ads))"
    "length (encode_ads ads) \<le> 229"
    by (simp_all add: report_carries_def Let_def)
  have len: "length ?copied = offsetof_data + length (encode_ads ads)"
  proof -
    have "length (drop offsetof_data ?copied) = length (encode_ads ads)"
      by (simp only: c(2))
    then have "length ?copied - offsetof_data = length (encode_ads ads)"
      by (simp only: length_drop)
    with c(1) show ?thesis by arith
  qed
  have dl: "report_buffer beyond event offsetof_data_length = of_nat (length (encode_ads ads))"
    using c(1) c(3) by (simp add: report_buffer_def buffer_after_copy_def filter_consts)
  have agree: "\<forall>j<length (encode_ads ads). ?data (0 + j) = encode_ads ads ! j"
  proof (intro allI impI)
    fix j assume j: "j < length (encode_ads ads)"
    then have "?data (0 + j) = ?copied ! (offsetof_data + j)"
      using len by (simp add: ptr_add_def report_buffer_def buffer_after_copy_def)
    also have "\<dots> = drop offsetof_data ?copied ! j"
      using c(1) by simp
    finally show "?data (0 + j) = encode_ads ads ! j" by (simp only: c(2))
  qed
  have "scan_ad_structures s ?data (of_nat (length (encode_ads ads))) (of_nat 0)
          = scan_list s ?data 0 ads"
    using agree c(4) by (intro scan_encoded) simp_all
  then show ?thesis by (simp add: dl)
qed

subsection \<open>The configuration functions, unfolded\<close>

lemma configure_filtering_eq:
  "sl_btctrl_hci_event_configure_filtering b p s =
    (if p = 0 then (SL_STATUS_NULL_POINTER, s)
     else if read_u32 (store s) p AND NOT SL_BT_HCI_FILTER_CONFIG_MASK \<noteq> 0
          \<or> (read_u32 (store s) p AND SL_BT_HCI_FILTER_CONFIG_RSSI_ENABLE_MASK \<noteq> 0
             \<and> (sint (store s (p + 4)) < SL_BT_HCI_FILTER_RSSI_MIN
                \<or> sint (store s (p + 4)) > SL_BT_HCI_FILTER_RSSI_MAX))
          \<or> unat (store s (p + 5)) > SL_BT_HCI_FILTER_16BIT_UUID_ARRAY_LEN b
          \<or> unat (store s (p + 6 + unat (store s (p + 5))))
               > SL_BT_HCI_FILTER_32BIT_UUID_ARRAY_LEN b
     then (SL_STATUS_INVALID_PARAMETER, s)
     else (SL_STATUS_OK,
           s\<lparr>hci_event_filter :=
               \<lparr>filter_config = read_u32 (store s) p,
                rssi_threshold = store s (p + 4),
                uuids_16bit =
                  \<lparr>uuid_array_length = store s (p + 5),
                   uuid_array = (if store s (p + 5) > 0 then p + 6 else 0)\<rparr>,
                uuids_32bit =
                  \<lparr>uuid_array_length = store s (p + 6 + unat (store s (p + 5))),
                   uuid_array = (if store s (p + 6 + unat (store s (p + 5))) > 0
                                 then p + 7 + unat (store s (p + 5)) else 0)\<rparr>\<rparr>\<rparr>))"
  by (auto simp: sl_btctrl_hci_event_configure_filtering_def Let_def ptr_add_def ac_simps)

lemma hci_configure_filter_command_eq:
  "hci_configure_filter_command b m s =
    (if msg_opcode_status m \<noteq> SL_STATUS_OK
        \<or> msg_opcode m \<noteq> SL_BT_HCI_CONFIGURE_FILTERING_OPCODE
     then (False, None, s)
     else if msg_length m < 5 \<or> msg_length m > sizeof_sli_work_filter b mod 256
             \<or> msg_length_status m \<noteq> SL_STATUS_OK
             \<or> msg_parameters_status m \<noteq> SL_STATUS_OK
     then (True, Some BT_ERR_INVALID, s)
     else (True,
           Some (if fst (sl_btctrl_hci_event_configure_filtering b (work_filter b)
                          (s\<lparr>store := copy_to (store s) (work_filter b)
                                          (take (msg_length m) (msg_parameters m))\<rparr>))
                    = SL_STATUS_OK
                 then BT_OK else BT_ERR_INVALID),
           snd (sl_btctrl_hci_event_configure_filtering b (work_filter b)
                  (s\<lparr>store := copy_to (store s) (work_filter b)
                                  (take (msg_length m) (msg_parameters m))\<rparr>))))"
  by (simp add: hci_configure_filter_command_def Let_def split_beta)

subsection \<open>The stage and its state\<close>

lemma filter_by_uuid_state:
  assumes "filter_by_uuid beyond s event = Some (status, s')"
  shows "s' = s
    \<or> (uuid_rules_enabled s \<and> decoded_report event \<and> status = EVENT_ACCEPT
       \<and> s' = s\<lparr>advertisment_report_incomplete := \<not> advertisment_report_incomplete s\<rparr>
       \<and> event_type_incomplete (report_buffer beyond event) = (\<not> advertisment_report_incomplete s))"
  using assms
  by (auto simp: filter_by_uuid_def uuid_rules_enabled_def decoded_report_def report_buffer_def
      Let_def split: if_splits)

lemma filter_by_uuid_bypass:
  assumes "uuid_rules_enabled s" "decoded_report event"
    "event_type_incomplete (report_buffer beyond event) = (\<not> advertisment_report_incomplete s)"
  shows "filter_by_uuid beyond s event
     = Some (EVENT_ACCEPT, s\<lparr>advertisment_report_incomplete := \<not> advertisment_report_incomplete s\<rparr>)"
  using assms
  by (auto simp: filter_by_uuid_def uuid_rules_enabled_def decoded_report_def report_buffer_def
      Let_def)

lemma filter_by_rssi_state: "snd (filter_by_rssi s event) = s"
  by (simp add: filter_by_rssi_def Let_def)

lemma filter_by_rssi_tracker:
  "fst (filter_by_rssi (s\<lparr>advertisment_report_incomplete := t\<rparr>) event) = fst (filter_by_rssi s event)"
  by (simp add: filter_by_rssi_def Let_def)

lemma filter_by_uuid_no_rules:
  "\<not> uuid_rules_enabled s \<Longrightarrow> filter_by_uuid beyond s event = Some (EVENT_ACCEPT, s)"
  by (simp add: filter_by_uuid_def uuid_rules_enabled_def Let_def)

subsection \<open>Empty UUID lists\<close>

lemma uuid_width_cases: "uuid_width_of_type t = 2 \<or> uuid_width_of_type t = 4"
  by (simp add: uuid_width_of_type_def)

lemma matcher_empty:
  assumes "uuid_array_length (uuids_of_width s (uuid_width_of_type t)) = 0" "unat l \<le> 253"
  shows "matcher_of_type s t l d = Some False"
proof -
  have "unat l + unat (of_nat (uuid_width_of_type t) :: u8) \<le> 257"
    "0 < (of_nat (uuid_width_of_type t) :: u8)"
    using uuid_width_cases[of t] assms(2) by auto
  then have "service_class_uuids_outer (of_nat (uuid_width_of_type t)) l d 0 arr 0 = Some False"
    for arr
    by (rule outer_loop_empty)
  then show ?thesis
    using assms(1)
    by (simp add: matcher_of_type_def Let_def filter_service_data_uuid_def service_loop_empty
        sl_filter_list_of_service_class_uuids_def)
qed

lemma matcher_empty_partial:
  assumes "uuid_array_length (uuids_of_width s (uuid_width_of_type t)) = 0"
  shows "matcher_of_type s t l d \<noteq> Some True"
proof
  assume m: "matcher_of_type s t l d = Some True"
  show False
  proof (cases "t = SL_BT_HCI_AD_TYPE_SERVICE_DATA_UUID_16_BIT
                \<or> t = SL_BT_HCI_AD_TYPE_SERVICE_DATA_UUID_32_BIT")
    case True
    with m assms show False
      by (simp add: matcher_of_type_def Let_def filter_service_data_uuid_def service_loop_empty)
  next
    case False
    with m assms have "service_class_uuids_outer (of_nat (uuid_width_of_type t)) l d 0
        (ptr_add (store s) (uuid_array (uuids_of_width s (uuid_width_of_type t)))) 0 = Some True"
      by (simp add: matcher_of_type_def Let_def sl_filter_list_of_service_class_uuids_def)
    from outer_loop_empty_partial[OF this] show False by simp
  qed
qed

lemma apply_filter_accepts_True:
  assumes "apply_filter_accepts s t l d = Some True"
  shows "structure_matches s t l d"
proof (cases t rule: ad_type_cases)
  case 1
  with assms show ?thesis
    by (auto simp: accepts_service_16 matcher_defs filter_consts Let_def split: if_splits)
next
  case 2
  with assms show ?thesis
    by (auto simp: accepts_service_32 matcher_defs filter_consts Let_def split: if_splits)
next
  case 3
  with assms show ?thesis
    by (auto simp: accepts_incomplete_16 matcher_defs filter_consts Let_def split: if_splits)
next
  case 4
  with assms show ?thesis
    by (auto simp: accepts_complete_16 matcher_defs filter_consts Let_def split: if_splits)
next
  case 5
  with assms show ?thesis
    by (auto simp: accepts_incomplete_32 matcher_defs filter_consts Let_def split: if_splits)
next
  case 6
  with assms show ?thesis
    by (auto simp: accepts_complete_32 matcher_defs filter_consts Let_def split: if_splits)
next
  case 7
  with assms show ?thesis by (simp add: accepts_other)
qed

lemma scan_never_accepts:
  assumes "scan_ad_structures s data dl ci = Some v"
    and "\<And>t l d. apply_filter_accepts s t l d \<noteq> Some True"
  shows "v = EVENT_DISCARD"
proof -
  have "(\<forall>t l d. apply_filter_accepts s t l d \<noteq> Some True) \<longrightarrow> v = EVENT_DISCARD"
  proof (rule scan_ad_structures.raw_induct
      [where P = "\<lambda>s data dl ci v. (\<forall>t l d. apply_filter_accepts s t l d \<noteq> Some True)
                     \<longrightarrow> v = EVENT_DISCARD", OF _ assms(1)])
    fix f s data dl ci v
    assume IH: "\<And>s data dl ci v. f s data dl ci = Some v
                  \<Longrightarrow> (\<forall>t l d. apply_filter_accepts s t l d \<noteq> Some True) \<longrightarrow> v = EVENT_DISCARD"
      and step: "(if dl \<noteq> 0 then
           (let ad_len = data (unat ci);
                ad_type = data (unat ci + 1);
                ad_data = ptr_add data (unat ci + 2)
            in
            if ad_len > dl then Some EVENT_DISCARD
            else
              Option.bind (apply_filter_accepts s ad_type ad_len ad_data)
                (\<lambda>accepted. if accepted then Some EVENT_ACCEPT
                             else f s data (dl - (ad_len + 1)) (ci + (ad_len + 1))))
         else Some EVENT_DISCARD) = Some v"
    show "(\<forall>t l d. apply_filter_accepts s t l d \<noteq> Some True) \<longrightarrow> v = EVENT_DISCARD"
    proof
      assume na: "\<forall>t l d. apply_filter_accepts s t l d \<noteq> Some True"
      show "v = EVENT_DISCARD"
      proof (cases "dl \<noteq> 0 \<and> \<not> data (unat ci) > dl")
        case False
        with step show ?thesis by (auto simp: Let_def split: if_splits)
      next
        case True
        with step obtain a where a: "apply_filter_accepts s (data (unat ci + 1)) (data (unat ci))
              (ptr_add data (unat ci + 2)) = Some a"
          and r: "(if a then Some EVENT_ACCEPT
                   else f s data (dl - (data (unat ci) + 1)) (ci + (data (unat ci) + 1))) = Some v"
          by (auto simp: Let_def bind_eq_Some_conv)
        from a na have "\<not> a" by (cases a) auto
        with r IH na show ?thesis by auto
      qed
    qed
  qed
  with assms(2) show ?thesis by blast
qed

lemma scan_list_empty:
  assumes "only_empty_list_rules s ads" "length (encode_ads ads) \<le> 229"
  shows "scan_list s data off ads = Some EVENT_DISCARD"
  using assms
proof (induction ads arbitrary: off)
  case Nil
  show ?case by simp
next
  case (Cons ad ads)
  obtain t p where ad: "ad = (t, p)" by (cases ad)
  from Cons.prems have b: "length p + 1 \<le> 253" "length (encode_ads ads) \<le> 229"
    and e: "only_empty_list_rules s ads"
    and here: "\<And>n. rule_of_type t = Some n \<Longrightarrow> config_bit s n
                 \<Longrightarrow> uuid_array_length (uuids_of_width s (uuid_width_of_type t)) = 0"
    by (simp_all add: ad only_empty_list_rules_def)
  from b have l: "unat (of_nat (length p + 1) :: u8) \<le> 253"
    by (subst unat_of_nat_u8) simp_all
  have m: "matcher_of_type s t (of_nat (length p + 1)) d = Some False"
    if "rule_of_type t = Some n" "config_bit s n" for n d
    using here[OF that] l by (rule matcher_empty)
  have "apply_filter_accepts s t (of_nat (length p + 1)) (ptr_add data (off + 2))
        = Some (structure_matches s t (of_nat (length p + 1)) (ptr_add data (off + 2)))"
    using m by (intro apply_filter_accepts_eq) blast
  moreover have "\<not> structure_matches s t (of_nat (length p + 1)) (ptr_add data (off + 2))"
    using m by (auto simp: structure_matches_def split: option.splits)
  ultimately have acc: "apply_filter_accepts s t (of_nat (length p + 1)) (ptr_add data (off + 2))
        = Some False" by simp
  show ?case
    unfolding ad scan_list.simps acc Cons.IH[OF e b(2)] by simp
qed

lemma accepts_never_when_empty:
  assumes "enabled_rules_have_empty_lists s"
  shows "apply_filter_accepts s t l d \<noteq> Some True"
proof
  assume "apply_filter_accepts s t l d = Some True"
  then have sm: "structure_matches s t l d" by (rule apply_filter_accepts_True)
  then obtain n where n: "rule_of_type t = Some n" "config_bit s n"
    and m: "matcher_of_type s t l d = Some True"
    by (auto simp: structure_matches_def split: option.splits)
  from n assms have "uuid_array_length (uuids_of_width s (uuid_width_of_type t)) = 0"
    by (auto simp: enabled_rules_have_empty_lists_def rule_of_type_def uuid_width_of_type_def
        uuids_of_width_def filter_consts split: if_splits)
  from matcher_empty_partial[OF this] m show False by blast
qed

lemma filter_service_empty:
  "filter_service_data_uuid sz d 0 arr = Some False"
  by (simp add: filter_service_data_uuid_def service_loop_empty)

subsection \<open>Single steps of the scan loop\<close>

lemma scan_step_at:
  assumes "unat idx = i" "data i = ad_len" "data (i + 1) = ad_type"
    and "data_len \<noteq> 0" "\<not> ad_len > data_len"
    and "apply_filter_accepts s ad_type ad_len (ptr_add data (i + 2)) = Some a"
  shows "scan_ad_structures s data data_len idx =
           (if a then Some EVENT_ACCEPT
            else scan_ad_structures s data (data_len - (ad_len + 1)) (idx + (ad_len + 1)))"
  using assms by (subst scan_ad_structures.simps) (simp add: Let_def)

lemma scan_overrun:
  assumes "unat idx = i" "data i > data_len" "data_len \<noteq> 0"
  shows "scan_ad_structures s data data_len idx = Some EVENT_DISCARD"
  using assms by (subst scan_ad_structures.simps) (simp add: Let_def)

lemma scan_skip_zeros:
  assumes "\<forall>k<n. data (i0 + k) = 0"
    and "\<forall>k<n. data (i0 + k + 1) \<notin> {0x16, 0x20, 0x02, 0x03, 0x04, 0x05}"
    and "i0 + n \<le> 256" and "n \<le> unat dl"
  shows "scan_ad_structures s data dl (of_nat i0)
           = scan_ad_structures s data (dl - of_nat n) (of_nat (i0 + n))"
  using assms
proof (induction n arbitrary: i0 dl)
  case 0
  show ?case by simp
next
  case (Suc n)
  have i0: "i0 < 256" using Suc.prems(3) by simp
  then have u: "unat (of_nat i0 :: u8) = i0" by (rule unat_of_nat_u8)
  have nz: "dl \<noteq> 0" using Suc.prems(4) by auto
  have z: "data i0 = 0" using Suc.prems(1)[rule_format, of 0] by simp
  have ty: "data (i0 + 1) \<notin> {0x16, 0x20, 0x02, 0x03, 0x04, 0x05}"
    using Suc.prems(2)[rule_format, of 0] by simp
  have acc: "apply_filter_accepts s (data (i0 + 1)) 0 d = Some False" for d
    using ty by (intro accepts_other) auto
  have le: "\<not> data (unat (of_nat i0 :: u8)) > dl" by (simp add: u z)
  have one: "1 \<le> unat dl" using Suc.prems(4) by simp
  then have udl: "unat (dl - 1) = unat dl - 1"
    by (simp add: unat_minus_one nz)
  have step: "scan_ad_structures s data dl (of_nat i0)
                = scan_ad_structures s data (dl - 1) (of_nat (i0 + 1))"
    using scan_step[of dl data "of_nat i0" s, OF nz le, unfolded u z acc]
    by (simp add: add.commute)
  have IH: "scan_ad_structures s data (dl - 1) (of_nat (i0 + 1))
              = scan_ad_structures s data (dl - 1 - of_nat n) (of_nat (i0 + 1 + n))"
  proof (rule Suc.IH)
    show "\<forall>k<n. data (i0 + 1 + k) = 0"
      using Suc.prems(1) by (auto simp: add.assoc dest: spec[of _ "Suc _"])
    show "\<forall>k<n. data (i0 + 1 + k + 1) \<notin> {0x16, 0x20, 0x02, 0x03, 0x04, 0x05}"
    proof (intro allI impI)
      fix k assume "k < n"
      then have "Suc k < Suc n" by simp
      from Suc.prems(2)[rule_format, OF this] show "data (i0 + 1 + k + 1) \<notin> {0x16, 0x20, 0x02, 0x03, 0x04, 0x05}"
        by (simp add: add.assoc)
    qed
    show "i0 + 1 + n \<le> 256" using Suc.prems(3) by simp
    show "n \<le> unat (dl - 1)" using Suc.prems(4) udl by simp
  qed
  show ?case
    unfolding step IH by (simp add: algebra_simps)
qed

lemma scan_stuck:
  assumes "data 0 = 255" "data 1 \<noteq> 0x16" "data 1 \<noteq> 0x20" "data 1 \<noteq> 0x02" "data 1 \<noteq> 0x03"
    "data 1 \<noteq> 0x04" "data 1 \<noteq> 0x05"
  shows "scan_ad_structures s data 255 0 = None"
proof (rule ccontr)
  assume "scan_ad_structures s data 255 0 \<noteq> None"
  then obtain v where v: "scan_ad_structures s data 255 0 = Some v" by auto
  have w: "(- 1 :: u8) = 255" "(256 :: u8) = 0" by simp_all
  have "\<not> (s' = s \<and> data' = data \<and> dl = 255 \<and> ci = 0)"
    if "scan_ad_structures s' data' dl ci = Some v'" for s' data' dl ci v'
  proof (rule scan_ad_structures.raw_induct
      [where P = "\<lambda>s' data' dl ci v'. \<not> (s' = s \<and> data' = data \<and> dl = 255 \<and> ci = 0)", OF _ that])
    fix f s' data' dl ci v'
    assume IH: "\<And>s' data' dl ci v'. f s' data' dl ci = Some v'
                  \<Longrightarrow> \<not> (s' = s \<and> data' = data \<and> dl = 255 \<and> ci = 0)"
      and step: "(if dl \<noteq> 0 then
           (let ad_len = data' (unat ci);
                ad_type = data' (unat ci + 1);
                ad_data = ptr_add data' (unat ci + 2)
            in
            if ad_len > dl then Some EVENT_DISCARD
            else
              Option.bind (apply_filter_accepts s' ad_type ad_len ad_data)
                (\<lambda>accepted. if accepted then Some EVENT_ACCEPT
                             else f s' data' (dl - (ad_len + 1)) (ci + (ad_len + 1))))
         else Some EVENT_DISCARD) = Some v'"
    show "\<not> (s' = s \<and> data' = data \<and> dl = 255 \<and> ci = 0)"
    proof
      assume eq: "s' = s \<and> data' = data \<and> dl = 255 \<and> ci = 0"
      have "f s data 255 0 = Some v'"
        using step eq assms by (simp add: accepts_other w)
      with IH show False by blast
    qed
  qed
  with v show False by blast
qed

subsection \<open>The concrete inputs\<close>

lemma memcmp_equal_2: "memcmp_equal p q 2 = (p 0 = q 0 \<and> p 1 = q 1)"
proof -
  have "[0..<2] = [0, 1]" by (simp add: upt_rec)
  then show ?thesis by (simp add: memcmp_equal_def)
qed

lemma memcmp_equal_4:
  "memcmp_equal p q 4 = (p 0 = q 0 \<and> p 1 = q 1 \<and> p 2 = q 2 \<and> p 3 = q 3)"
proof -
  have "[0..<4] = [0, 1, 2, 3]" by (simp add: upt_rec)
  then show ?thesis by (simp add: memcmp_equal_def)
qed

lemma ptr_add_0: "ptr_add p 0 = p"
  by (simp add: ptr_add_def)

lemma service_data_first_entry:
  assumes "0 < n" "memcmp_equal d arr (unat sz)"
  shows "filter_service_data_uuid sz d n arr = Some True"
  using assms
  by (simp add: filter_service_data_uuid_def filter_service_data_uuid_loop.simps[of sz d n arr 0]
      ptr_add_def)

lemma service_data_single_entry:
  assumes "0 < n" "n \<le> sz"
  shows "filter_service_data_uuid sz d n arr = Some (memcmp_equal d arr (unat sz))"
proof -
  have "\<not> sz < n" using assms(2) by simp
  then show ?thesis
    using assms(1)
    by (simp add: filter_service_data_uuid_def ptr_add_0
        filter_service_data_uuid_loop.simps[of sz d n arr 0]
        filter_service_data_uuid_loop.simps[of sz d n arr sz])
qed

lemma example_reaches_scan:
  "reaches_scan beyond example_uuid_state (example_event 0 r n d)"
  "reaches_scan beyond (example_state 0x42 0) (example_event 0 r n d)"
  by (simp_all add: reaches_scan_def uuid_rules_enabled_def decoded_report_def report_buffer_def
      event_type_incomplete_def read_u16_def buffer_after_copy_def example_defs filter_consts)

lemma example_data:
  "ptr_add (ptr_add (report_buffer beyond (example_event t r n d)) offsetof_data) i k =
     (if i + k < length d then d ! (i + k)
      else if i + k < 231 then 0 else beyond (i + k - 231))"
  by (auto simp: ptr_add_def report_buffer_def buffer_after_copy_def example_defs filter_consts
      nth_append)

lemma example_data':
  "ptr_add (ptr_add (report_buffer beyond (example_event t r n d)) 28) i k =
     (if i + k < length d then d ! (i + k)
      else if i + k < 231 then 0 else beyond (i + k - 231))"
  using example_data[of beyond t r n d i k] by (simp add: offsetof_data_def)

lemma one_byte_data:
  fixes beyond :: memory
  defines "data \<equiv> ptr_add (report_buffer beyond (example_event 0 0 1 [1])) offsetof_data"
  shows "data 0 = 1" and "1 \<le> i \<Longrightarrow> i \<le> 230 \<Longrightarrow> data i = 0"
    and "data (231 + k) = beyond k"
  by (simp_all add: data_def ptr_add_def report_buffer_def buffer_after_copy_def example_defs
      filter_consts)

lemma one_byte_scan:
  fixes beyond :: memory
  defines "data \<equiv> ptr_add (report_buffer beyond (example_event 0 0 1 [1])) offsetof_data"
  assumes "beyond 0 \<notin> {0x16, 0x20, 0x02, 0x03, 0x04, 0x05}"
  shows "scan_ad_structures s data 1 0 = scan_ad_structures s data 26 231"
proof -
  have d0: "data 0 = 1" and d1: "data (0 + 1) = 0"
    unfolding data_def by (simp_all add: one_byte_data)
  have acc: "apply_filter_accepts s 0 1 d = Some False" for d
    by (rule accepts_other) simp_all
  have w: "(1 :: u8) - (1 + 1) = 255" "(0 :: u8) + (1 + 1) = 2" by simp_all
  have "scan_ad_structures s data 1 0 = scan_ad_structures s data 255 2"
    using scan_step_at[of 0 0 data 1 0 1 s False, OF _ d0 d1 _ _ acc] by (simp only: w) simp
  also have "\<dots> = scan_ad_structures s data (255 - of_nat 229) (of_nat (2 + 229))"
  proof -
    have "scan_ad_structures s data 255 (of_nat 2)
            = scan_ad_structures s data (255 - of_nat 229) (of_nat (2 + 229))"
    proof (rule scan_skip_zeros)
      show "\<forall>k<229. data (2 + k) = 0"
        unfolding data_def by (simp add: one_byte_data)
      show "\<forall>k<229. data (2 + k + 1) \<notin> {0x16, 0x20, 0x02, 0x03, 0x04, 0x05}"
      proof (intro allI impI)
        fix k :: nat assume k: "k < 229"
        show "data (2 + k + 1) \<notin> {0x16, 0x20, 0x02, 0x03, 0x04, 0x05}"
        proof (cases "k = 228")
          case True
          have "data (231 + 0) = beyond 0" unfolding data_def by (rule one_byte_data)
          with True assms(2) show ?thesis by simp
        next
          case False
          with k have "data (2 + k + 1) = 0"
            unfolding data_def by (intro one_byte_data) simp_all
          then show ?thesis by simp
        qed
      qed
    qed simp_all
    then show ?thesis by simp
  qed
  finally show ?thesis by simp
qed

lemma example_carries:
  "report_carries (example_event t r 8 matching_data) [(0xFF, [1, 2]), (0x16, [0x0F, 0x18])]"
  "report_carries (example_event t r 4 other_data) [(0x16, [0x0A, 0x18])]"
  by (simp_all add: report_carries_def example_defs filter_consts)

lemma example_uuid16_list:
  "ptr_add (store example_uuid_state) 106 0 = 0x0F"
  "ptr_add (store example_uuid_state) 106 1 = 0x18"
  by (simp_all add: ptr_add_def example_defs copy_to_def)

lemma matching_data_matches:
  "any_structure_matches example_uuid_state
     (ptr_add (report_buffer beyond (example_event t r 8 matching_data)) offsetof_data) 0
     [(0xFF, [1, 2]), (0x16, [0x0F, 0x18])]"
  using example_uuid16_list
  by (simp add: structure_matches_def rule_of_type_def matcher_of_type_def
      uuid_width_of_type_def uuids_of_width_def config_bit_def filter_consts
      service_data_first_entry memcmp_equal_2 example_data' matching_data_def
      example_uuid_state_def)

lemma other_data_matches_not:
  "\<not> any_structure_matches example_uuid_state
       (ptr_add (report_buffer beyond (example_event t r 4 other_data)) offsetof_data) 0
       [(0x16, [0x0A, 0x18])]"
  using example_uuid16_list
  by (simp add: structure_matches_def rule_of_type_def matcher_of_type_def
      uuid_width_of_type_def uuids_of_width_def config_bit_def filter_consts
      service_data_single_entry memcmp_equal_2 example_data' other_data_def
      example_uuid_state_def)

lemma example_rules_enabled:
  "uuid_rules_enabled example_uuid_state" "uuid_rules_enabled (example_state 2 t)"
  "uuid_rules_enabled ((example_state 2 t)\<lparr>advertisment_report_incomplete := True\<rparr>)"
  "\<not> uuid_rules_enabled (example_state 1 t)"
  by (simp_all add: uuid_rules_enabled_def example_defs filter_consts)

lemma example_decoded: "decoded_report (example_event t r n d)"
  by (simp add: decoded_report_def example_defs filter_consts)

lemma example_incomplete:
  "event_type_incomplete (report_buffer beyond (example_event 0x20 r n d))"
  "\<not> event_type_incomplete (report_buffer beyond (example_event 0 r n d))"
  by (simp_all add: event_type_incomplete_def report_buffer_def buffer_after_copy_def
      read_u16_def example_defs filter_consts)

lemma uuid_stage_scan_result:
  assumes "reaches_scan beyond s event" "report_carries event ads" "uuid_lists_bounded s"
  shows "filter_by_uuid beyond s event =
           Some (if any_structure_matches s
                      (ptr_add (report_buffer beyond event) offsetof_data) 0 ads
                 then EVENT_ACCEPT else EVENT_DISCARD, s)"
proof -
  from assms have dec: "decoded_report event" and len: "length (encode_ads ads) \<le> 229"
    by (simp_all add: reaches_scan_def report_carries_def Let_def)
  have 1: "filter_by_uuid beyond s event =
           map_option (\<lambda>status. (status, s))
             (scan_ad_structures s (ptr_add (report_buffer beyond event) offsetof_data)
                (report_buffer beyond event offsetof_data_length) 0)"
    by (rule filter_by_uuid_reaches_scan) (rule assms(1))
  have 2: "scan_ad_structures s (ptr_add (report_buffer beyond event) offsetof_data)
           (report_buffer beyond event offsetof_data_length) 0 =
         scan_list s (ptr_add (report_buffer beyond event) offsetof_data) 0 ads"
    by (rule report_carries_scan) (rule dec, rule assms(2))
  have 3: "scan_list s (ptr_add (report_buffer beyond event) offsetof_data) 0 ads =
      Some (if any_structure_matches s (ptr_add (report_buffer beyond event) offsetof_data) 0 ads
            then EVENT_ACCEPT else EVENT_DISCARD)"
    by (rule scan_list_any) (rule assms(3), rule len)
  show ?thesis by (simp only: 1 2 3 option.map)
qed

lemma uuid_stage_empty_lists:
  assumes "reaches_scan beyond s event" "report_carries event ads" "only_empty_list_rules s ads"
  shows "filter_by_uuid beyond s event = Some (EVENT_DISCARD, s)"
proof -
  from assms have dec: "decoded_report event" and len: "length (encode_ads ads) \<le> 229"
    by (simp_all add: reaches_scan_def report_carries_def Let_def)
  have 1: "filter_by_uuid beyond s event =
           map_option (\<lambda>status. (status, s))
             (scan_ad_structures s (ptr_add (report_buffer beyond event) offsetof_data)
                (report_buffer beyond event offsetof_data_length) 0)"
    by (rule filter_by_uuid_reaches_scan) (rule assms(1))
  have 2: "scan_ad_structures s (ptr_add (report_buffer beyond event) offsetof_data)
           (report_buffer beyond event offsetof_data_length) 0 =
         scan_list s (ptr_add (report_buffer beyond event) offsetof_data) 0 ads"
    by (rule report_carries_scan) (rule dec, rule assms(2))
  have 3: "scan_list s (ptr_add (report_buffer beyond event) offsetof_data) 0 ads =
      Some EVENT_DISCARD"
    by (rule scan_list_empty) (rule assms(3), rule len)
  show ?thesis by (simp only: 1 2 3 option.map)
qed

lemma uuid_stage_never_accepts:
  assumes "reaches_scan beyond s event" "enabled_rules_have_empty_lists s"
  shows "filter_by_uuid beyond s event \<noteq> Some (EVENT_ACCEPT, s)"
proof
  assume a: "filter_by_uuid beyond s event = Some (EVENT_ACCEPT, s)"
  have 1: "filter_by_uuid beyond s event =
           map_option (\<lambda>status. (status, s))
             (scan_ad_structures s (ptr_add (report_buffer beyond event) offsetof_data)
                (report_buffer beyond event offsetof_data_length) 0)"
    by (rule filter_by_uuid_reaches_scan) (rule assms(1))
  from a have "scan_ad_structures s (ptr_add (report_buffer beyond event) offsetof_data)
                (report_buffer beyond event offsetof_data_length) 0 = Some EVENT_ACCEPT"
    unfolding 1 by auto
  from scan_never_accepts[OF this] accepts_never_when_empty[OF assms(2)] show False by blast
qed

lemma example_empty_scan:
  "filter_by_uuid zero_memory ((example_state 2 0)\<lparr>advertisment_report_incomplete := t\<rparr>)
     (example_event (if t then 0x20 else 0) 0 0 [])
     = Some (EVENT_DISCARD, (example_state 2 0)\<lparr>advertisment_report_incomplete := t\<rparr>)"
  by (simp add: filter_by_uuid_def event_type_incomplete_def scan_done
      read_u16_def buffer_after_copy_def Let_def example_defs filter_consts)

subsection \<open>What the matchers read\<close>

text \<open>
  The result of a matcher, a missing result included, depends on the AD payload only through
  the bytes the loop compares. For a payload of whole UUIDs these lie inside the payload, and
  the scan of well-formed AD data depends on the AD data alone, not on the rest of the buffer
  nor on the memory after it.
\<close>

lemma option_eqI:
  assumes "\<And>r. a = Some r \<Longrightarrow> b = Some r" "\<And>r. b = Some r \<Longrightarrow> a = Some r"
  shows "a = (b :: 'a option)"
  using assms by (cases a; cases b) auto

lemma memcmp_equal_memory:
  assumes "\<forall>k<n. p k = p' k"
  shows "memcmp_equal p q n = memcmp_equal p' q n"
proof -
  have "map p [0..<n] = map p' [0..<n]" using assms by simp
  then show ?thesis by (simp only: memcmp_equal_def)
qed

lemma service_loop_memory_Some:
  assumes "filter_service_data_uuid_loop sz ad n arr i = Some r"
  shows "\<forall>ad'. (\<forall>k<unat sz. ad k = ad' k)
           \<longrightarrow> filter_service_data_uuid_loop sz ad' n arr i = Some r"
proof (rule filter_service_data_uuid_loop.raw_induct
    [where P = "\<lambda>sz ad n arr i r. \<forall>ad'. (\<forall>k<unat sz. ad k = ad' k)
                  \<longrightarrow> filter_service_data_uuid_loop sz ad' n arr i = Some r", OF _ assms])
  fix f sz ad n arr i r
  assume IH: "\<And>sz ad n arr i r. f sz ad n arr i = Some r
                \<Longrightarrow> \<forall>ad'. (\<forall>k<unat sz. ad k = ad' k)
                      \<longrightarrow> filter_service_data_uuid_loop sz ad' n arr i = Some r"
    and step: "(if i < n then
                  (if memcmp_equal ad (ptr_add arr (unat i)) (unat sz) then Some True
                   else f sz ad n arr (i + sz))
                else Some False) = Some r"
  show "\<forall>ad'. (\<forall>k<unat sz. ad k = ad' k)
          \<longrightarrow> filter_service_data_uuid_loop sz ad' n arr i = Some r"
  proof (intro allI impI)
    fix ad' assume a: "\<forall>k<unat sz. ad k = ad' k"
    then have m: "memcmp_equal ad' q (unat sz) = memcmp_equal ad q (unat sz)" for q
      by (intro memcmp_equal_memory) simp
    show "filter_service_data_uuid_loop sz ad' n arr i = Some r"
      using step IH a
      by (subst filter_service_data_uuid_loop.simps) (auto simp: m split: if_splits)
  qed
qed

lemma service_data_memory:
  assumes "\<forall>k<unat sz. ad k = ad' k"
  shows "filter_service_data_uuid sz ad n arr = filter_service_data_uuid sz ad' n arr"
  unfolding filter_service_data_uuid_def
proof (rule option_eqI)
  fix r assume "filter_service_data_uuid_loop sz ad n arr 0 = Some r"
  from service_loop_memory_Some[OF this] assms
  show "filter_service_data_uuid_loop sz ad' n arr 0 = Some r" by blast
next
  fix r assume "filter_service_data_uuid_loop sz ad' n arr 0 = Some r"
  from service_loop_memory_Some[OF this] assms
  show "filter_service_data_uuid_loop sz ad n arr 0 = Some r" by simp
qed

lemma inner_loop_memory_Some:
  assumes "service_class_uuids_inner sz ad n arr i j = Some r"
  shows "\<forall>ad'. (\<forall>k<unat sz. ad (unat i + k) = ad' (unat i + k))
           \<longrightarrow> service_class_uuids_inner sz ad' n arr i j = Some r"
proof (rule service_class_uuids_inner.raw_induct
    [where P = "\<lambda>sz ad n arr i j r. \<forall>ad'. (\<forall>k<unat sz. ad (unat i + k) = ad' (unat i + k))
                  \<longrightarrow> service_class_uuids_inner sz ad' n arr i j = Some r", OF _ assms])
  fix f sz ad n arr i j r
  assume IH: "\<And>sz ad n arr i j r. f sz ad n arr i j = Some r
                \<Longrightarrow> \<forall>ad'. (\<forall>k<unat sz. ad (unat i + k) = ad' (unat i + k))
                      \<longrightarrow> service_class_uuids_inner sz ad' n arr i j = Some r"
    and step: "(if j < n then
                  (if memcmp_equal (ptr_add ad (unat i)) (ptr_add arr (unat j)) (unat sz)
                   then Some True
                   else f sz ad n arr i (j + sz))
                else Some False) = Some r"
  show "\<forall>ad'. (\<forall>k<unat sz. ad (unat i + k) = ad' (unat i + k))
          \<longrightarrow> service_class_uuids_inner sz ad' n arr i j = Some r"
  proof (intro allI impI)
    fix ad' assume a: "\<forall>k<unat sz. ad (unat i + k) = ad' (unat i + k)"
    then have m: "memcmp_equal (ptr_add ad' (unat i)) q (unat sz)
                    = memcmp_equal (ptr_add ad (unat i)) q (unat sz)" for q
      by (intro memcmp_equal_memory) (simp add: ptr_add_def)
    show "service_class_uuids_inner sz ad' n arr i j = Some r"
      using step IH a
      by (subst service_class_uuids_inner.simps) (auto simp: m split: if_splits)
  qed
qed

lemma inner_loop_memory:
  assumes "\<forall>k<unat sz. ad (unat i + k) = ad' (unat i + k)"
  shows "service_class_uuids_inner sz ad n arr i j = service_class_uuids_inner sz ad' n arr i j"
proof (rule option_eqI)
  fix r assume "service_class_uuids_inner sz ad n arr i j = Some r"
  from inner_loop_memory_Some[OF this] assms
  show "service_class_uuids_inner sz ad' n arr i j = Some r" by blast
next
  fix r assume "service_class_uuids_inner sz ad' n arr i j = Some r"
  from inner_loop_memory_Some[OF this] assms
  show "service_class_uuids_inner sz ad n arr i j = Some r" by simp
qed

lemma whole_step:
  fixes w a b :: nat
  assumes "w dvd a" "w dvd b" "a < b"
  shows "a + w \<le> b"
proof -
  from assms(1,2) obtain x y where x: "a = w * x" and y: "b = w * y" by (auto elim!: dvdE)
  with assms(3) have "x < y" by auto
  then have "Suc x \<le> y" by simp
  then have "w * Suc x \<le> w * y" by (rule mult_le_mono2)
  then show ?thesis by (simp add: x y)
qed

lemma outer_loop_memory_Some:
  assumes "service_class_uuids_outer sz ad_len ad n arr i = Some r"
  shows "\<forall>ad'. unat sz dvd 256 \<and> unat sz dvd unat i \<and> unat sz dvd m
              \<and> uint ad_len - 1 \<le> int m \<and> (\<forall>k<m. ad k = ad' k)
           \<longrightarrow> service_class_uuids_outer sz ad_len ad' n arr i = Some r"
proof (rule service_class_uuids_outer.raw_induct
    [where P = "\<lambda>sz ad_len ad n arr i r.
        \<forall>ad'. unat sz dvd 256 \<and> unat sz dvd unat i \<and> unat sz dvd m
              \<and> uint ad_len - 1 \<le> int m \<and> (\<forall>k<m. ad k = ad' k)
           \<longrightarrow> service_class_uuids_outer sz ad_len ad' n arr i = Some r", OF _ assms])
  fix f sz ad_len ad n arr i r
  assume IH: "\<And>sz ad_len ad n arr i r. f sz ad_len ad n arr i = Some r
     \<Longrightarrow> \<forall>ad'. unat sz dvd 256 \<and> unat sz dvd unat i \<and> unat sz dvd m
              \<and> uint ad_len - 1 \<le> int m \<and> (\<forall>k<m. ad k = ad' k)
           \<longrightarrow> service_class_uuids_outer sz ad_len ad' n arr i = Some r"
    and step: "(if uint i < uint ad_len - 1
          then Option.bind (service_class_uuids_inner sz ad n arr i 0)
                 (\<lambda>found. if found then Some True else f sz ad_len ad n arr (i + sz))
          else Some False) = Some r"
  show "\<forall>ad'. unat sz dvd 256 \<and> unat sz dvd unat i \<and> unat sz dvd m
              \<and> uint ad_len - 1 \<le> int m \<and> (\<forall>k<m. ad k = ad' k)
           \<longrightarrow> service_class_uuids_outer sz ad_len ad' n arr i = Some r"
  proof (intro allI impI)
    fix ad'
    assume a: "unat sz dvd 256 \<and> unat sz dvd unat i \<and> unat sz dvd m
              \<and> uint ad_len - 1 \<le> int m \<and> (\<forall>k<m. ad k = ad' k)"
    show "service_class_uuids_outer sz ad_len ad' n arr i = Some r"
    proof (cases "uint i < uint ad_len - 1")
      case False
      with step show ?thesis
        by (subst service_class_uuids_outer.simps) simp
    next
      case True
      with a have "uint i < int m" by simp
      then have "int (unat i) < int m" by simp
      then have "unat i < m" by (simp only: of_nat_less_iff)
      with a have le: "unat i + unat sz \<le> m" by (intro whole_step) simp_all
      with a have "\<forall>k<unat sz. ad (unat i + k) = ad' (unat i + k)" by simp
      then have inner: "service_class_uuids_inner sz ad' n arr i 0
                          = service_class_uuids_inner sz ad n arr i 0"
        by (intro inner_loop_memory[symmetric])
      have "unat (i + sz) = (unat i + unat sz) mod 256"
        by (simp add: unat_word_ariths)
      with a have nxt: "unat sz dvd unat (i + sz)"
        by (simp add: dvd_mod_iff)
      from step True obtain found where
        found: "service_class_uuids_inner sz ad n arr i 0 = Some found"
        and rest: "(if found then Some True else f sz ad_len ad n arr (i + sz)) = Some r"
        by (auto simp: bind_eq_Some_conv)
      show ?thesis
      proof (cases found)
        case True
        with rest found show ?thesis
          by (subst service_class_uuids_outer.simps) (simp add: inner \<open>uint i < uint ad_len - 1\<close>)
      next
        case False
        with rest have "f sz ad_len ad n arr (i + sz) = Some r" by simp
        from IH[OF this] a nxt
        have "service_class_uuids_outer sz ad_len ad' n arr (i + sz) = Some r" by blast
        with False found show ?thesis
          by (subst service_class_uuids_outer.simps) (simp add: inner \<open>uint i < uint ad_len - 1\<close>)
      qed
    qed
  qed
qed

lemma service_class_memory:
  assumes "unat sz dvd 256" "unat sz dvd m" "uint ad_len - 1 \<le> int m" "\<forall>k<m. ad k = ad' k"
  shows "sl_filter_list_of_service_class_uuids sz ad_len ad n arr
           = sl_filter_list_of_service_class_uuids sz ad_len ad' n arr"
  unfolding sl_filter_list_of_service_class_uuids_def
proof (rule option_eqI)
  fix r assume "service_class_uuids_outer sz ad_len ad n arr 0 = Some r"
  from outer_loop_memory_Some[OF this, of m] assms
  show "service_class_uuids_outer sz ad_len ad' n arr 0 = Some r" by simp
next
  fix r assume "service_class_uuids_outer sz ad_len ad' n arr 0 = Some r"
  from outer_loop_memory_Some[OF this, of m] assms
  show "service_class_uuids_outer sz ad_len ad n arr 0 = Some r" by simp
qed

lemma ad_len_payload: "uint (of_nat (length p + 1) :: u8) - 1 \<le> int (length p)"
proof -
  have "unat (of_nat n :: u8) \<le> n" for n
    by (simp add: unat_of_nat)
  from this[of "length p + 1"] have "int (unat (of_nat (length p + 1) :: u8)) - 1 \<le> int (length p)" by arith
  then show ?thesis by simp
qed

lemma apply_filter_accepts_memory:
  assumes w: "carries_whole_uuids (t, p)" and a: "\<forall>k<length p. d1 k = d2 k"
  shows "apply_filter_accepts s t (of_nat (length p + 1)) d1
           = apply_filter_accepts s t (of_nat (length p + 1)) d2"
proof (cases t rule: ad_type_cases)
  case 1
  with w have "2 \<le> length p"
    by (simp add: carries_whole_uuids_def rule_of_type_def uuid_width_of_type_def filter_consts)
  with a have "\<forall>k<unat (2 :: u8). d1 k = d2 k" by simp
  then have "filter_service_data_uuid 2 d1 n arr = filter_service_data_uuid 2 d2 n arr" for n arr
    by (rule service_data_memory)
  then show ?thesis unfolding 1 accepts_service_16 filter_16bit_service_def by simp
next
  case 2
  with w have "4 \<le> length p"
    by (simp add: carries_whole_uuids_def rule_of_type_def uuid_width_of_type_def filter_consts)
  with a have "\<forall>k<unat (4 :: u8). d1 k = d2 k" by simp
  then have "filter_service_data_uuid 4 d1 n arr = filter_service_data_uuid 4 d2 n arr" for n arr
    by (rule service_data_memory)
  then show ?thesis unfolding 2 accepts_service_32 filter_32bit_service_def by simp
next
  case 3
  with w have "unat (2 :: u8) dvd length p"
    by (simp add: carries_whole_uuids_def rule_of_type_def uuid_width_of_type_def filter_consts)
  then have "sl_filter_list_of_service_class_uuids 2 (of_nat (length p + 1)) d1 n arr
      = sl_filter_list_of_service_class_uuids 2 (of_nat (length p + 1)) d2 n arr" for n arr
    using ad_len_payload a by (intro service_class_memory[where m = "length p"]) simp_all
  then show ?thesis unfolding 3 accepts_incomplete_16 filter_16bit_list_def by simp
next
  case 4
  with w have "unat (2 :: u8) dvd length p"
    by (simp add: carries_whole_uuids_def rule_of_type_def uuid_width_of_type_def filter_consts)
  then have "sl_filter_list_of_service_class_uuids 2 (of_nat (length p + 1)) d1 n arr
      = sl_filter_list_of_service_class_uuids 2 (of_nat (length p + 1)) d2 n arr" for n arr
    using ad_len_payload a by (intro service_class_memory[where m = "length p"]) simp_all
  then show ?thesis unfolding 4 accepts_complete_16 filter_16bit_list_def by simp
next
  case 5
  with w have "unat (4 :: u8) dvd length p"
    by (simp add: carries_whole_uuids_def rule_of_type_def uuid_width_of_type_def filter_consts)
  then have "sl_filter_list_of_service_class_uuids 4 (of_nat (length p + 1)) d1 n arr
      = sl_filter_list_of_service_class_uuids 4 (of_nat (length p + 1)) d2 n arr" for n arr
    using ad_len_payload a by (intro service_class_memory[where m = "length p"]) simp_all
  then show ?thesis unfolding 5 accepts_incomplete_32 filter_32bit_list_def by simp
next
  case 6
  with w have "unat (4 :: u8) dvd length p"
    by (simp add: carries_whole_uuids_def rule_of_type_def uuid_width_of_type_def filter_consts)
  then have "sl_filter_list_of_service_class_uuids 4 (of_nat (length p + 1)) d1 n arr
      = sl_filter_list_of_service_class_uuids 4 (of_nat (length p + 1)) d2 n arr" for n arr
    using ad_len_payload a by (intro service_class_memory[where m = "length p"]) simp_all
  then show ?thesis unfolding 6 accepts_complete_32 filter_32bit_list_def by simp
next
  case 7
  then show ?thesis by (simp add: accepts_other)
qed

lemma scan_list_memory:
  assumes "list_all carries_whole_uuids ads"
    and "\<forall>j<length (encode_ads ads). d1 (off + j) = d2 (off + j)"
  shows "scan_list s d1 off ads = scan_list s d2 off ads"
  using assms
proof (induction ads arbitrary: off)
  case Nil
  show ?case by simp
next
  case (Cons ad ads)
  obtain t p where ad: "ad = (t, p)" by (cases ad)
  from Cons.prems(1) have w: "carries_whole_uuids (t, p)" and ws: "list_all carries_whole_uuids ads"
    by (simp_all add: ad)
  have agree: "d1 (off + j) = d2 (off + j)" if "j < length p + 2 + length (encode_ads ads)" for j
    using Cons.prems(2) that by (simp add: ad)
  have "\<forall>k<length p. ptr_add d1 (off + 2) k = ptr_add d2 (off + 2) k"
  proof (intro allI impI)
    fix k assume "k < length p"
    then have "d1 (off + (2 + k)) = d2 (off + (2 + k))" by (intro agree) simp
    then show "ptr_add d1 (off + 2) k = ptr_add d2 (off + 2) k"
      by (simp add: ptr_add_def add.assoc)
  qed
  with w have acc: "apply_filter_accepts s t (of_nat (length p + 1)) (ptr_add d1 (off + 2))
      = apply_filter_accepts s t (of_nat (length p + 1)) (ptr_add d2 (off + 2))"
    by (rule apply_filter_accepts_memory)
  have "\<forall>j<length (encode_ads ads). d1 (off + length p + 2 + j) = d2 (off + length p + 2 + j)"
  proof (intro allI impI)
    fix j assume "j < length (encode_ads ads)"
    then have "d1 (off + (length p + 2 + j)) = d2 (off + (length p + 2 + j))"
      by (intro agree) simp
    then show "d1 (off + length p + 2 + j) = d2 (off + length p + 2 + j)"
      by (simp add: add.assoc)
  qed
  with ws have IH: "scan_list s d1 (off + length p + 2) ads = scan_list s d2 (off + length p + 2) ads"
    by (rule Cons.IH)
  show ?case
    unfolding ad scan_list.simps acc IH by (rule refl)
qed

lemma report_carries_data:
  assumes "report_carries event ads" "j < length (encode_ads ads)"
  shows "ptr_add (report_buffer beyond event) offsetof_data j = encode_ads ads ! j"
proof -
  let ?copied = "take (len event + 2) (parameters event)"
  from assms(1) have c: "offsetof_data \<le> length ?copied"
    "drop offsetof_data ?copied = encode_ads ads"
    by (simp_all add: report_carries_def Let_def)
  have "length (drop offsetof_data ?copied) = length (encode_ads ads)"
    by (simp only: c(2))
  then have "length ?copied - offsetof_data = length (encode_ads ads)"
    by (simp only: length_drop)
  with c(1) have len: "length ?copied = offsetof_data + length (encode_ads ads)" by arith
  have "ptr_add (report_buffer beyond event) offsetof_data j = ?copied ! (offsetof_data + j)"
    using len assms(2) by (simp add: ptr_add_def report_buffer_def buffer_after_copy_def)
  also have "\<dots> = drop offsetof_data ?copied ! j"
    using c(1) by simp
  finally show ?thesis by (simp only: c(2))
qed

lemma event_type_memory:
  "event_type_incomplete (buffer_after_copy copied beyond')
     = event_type_incomplete (buffer_after_copy copied beyond)"
  by (simp add: event_type_incomplete_def read_u16_def buffer_after_copy_def filter_consts)

lemma reaches_scan_memory: "reaches_scan beyond' s event = reaches_scan beyond s event"
  by (simp add: reaches_scan_def report_buffer_def event_type_memory[of _ beyond' beyond])

lemma filter_by_uuid_before_scan:
  assumes "\<not> reaches_scan beyond s event"
  shows "filter_by_uuid beyond' s event = filter_by_uuid beyond s event"
proof -
  have e: "event_type_incomplete (buffer_after_copy c beyond')
             = event_type_incomplete (buffer_after_copy c beyond)" for c
    by (rule event_type_memory)
  from assms show ?thesis
    by (auto simp: filter_by_uuid_def reaches_scan_def uuid_rules_enabled_def decoded_report_def
        report_buffer_def Let_def e)
qed

lemma filter_by_uuid_memory:
  assumes "scan_reads_inside beyond s event ads"
  shows "filter_by_uuid beyond' s event = filter_by_uuid beyond s event"
proof (cases "reaches_scan beyond s event")
  case False
  then show ?thesis by (rule filter_by_uuid_before_scan)
next
  case True
  with assms have c: "report_carries event ads" and w: "list_all carries_whole_uuids ads"
    by (simp_all add: scan_reads_inside_def)
  from True have r': "reaches_scan beyond' s event"
    using reaches_scan_memory[where beyond' = beyond' and beyond = beyond] by blast
  from True have dec: "decoded_report event" by (simp add: reaches_scan_def)
  have "\<forall>j<length (encode_ads ads).
          ptr_add (report_buffer beyond' event) offsetof_data (0 + j)
            = ptr_add (report_buffer beyond event) offsetof_data (0 + j)"
    using c by (simp add: report_carries_data)
  with w have "scan_list s (ptr_add (report_buffer beyond' event) offsetof_data) 0 ads
      = scan_list s (ptr_add (report_buffer beyond event) offsetof_data) 0 ads"
    by (rule scan_list_memory)
  then show ?thesis
    by (simp only: filter_by_uuid_reaches_scan[OF True] filter_by_uuid_reaches_scan[OF r']
        report_carries_scan[OF dec c])
qed

subsection \<open>The counter of the list matcher for 32-bit UUIDs\<close>

text \<open>
  For an AD length of 254 or 255 the bound \<^verbatim>\<open>ad_len - 1\<close> is 253 or 254. The counter \<open>i\<close>
  steps by 4 from 0, is 252 below the bound, and the next step wraps it to 0: with an empty
  UUID list no iteration returns, and the loop does not end.
\<close>

lemma outer_loop_wraps:
  assumes "service_class_uuids_outer sz ad_len ad n arr i = Some r"
  shows "\<not> (sz = 4 \<and> 254 \<le> unat ad_len \<and> n = 0 \<and> 4 dvd unat i)"
proof (rule service_class_uuids_outer.raw_induct
    [where P = "\<lambda>sz ad_len ad n arr i r.
        \<not> (sz = 4 \<and> 254 \<le> unat ad_len \<and> n = 0 \<and> 4 dvd unat i)", OF _ assms])
  fix f sz ad_len ad n arr i r
  assume IH: "\<And>sz ad_len ad n arr i r. f sz ad_len ad n arr i = Some r
     \<Longrightarrow> \<not> (sz = 4 \<and> 254 \<le> unat ad_len \<and> n = 0 \<and> 4 dvd unat i)"
    and step: "(if uint i < uint ad_len - 1
          then Option.bind (service_class_uuids_inner sz ad n arr i 0)
                 (\<lambda>found. if found then Some True else f sz ad_len ad n arr (i + sz))
          else Some False) = Some r"
  show "\<not> (sz = 4 \<and> 254 \<le> unat ad_len \<and> n = 0 \<and> 4 dvd unat i)"
  proof
    assume a: "sz = 4 \<and> 254 \<le> unat ad_len \<and> n = 0 \<and> 4 dvd unat i"
    from a obtain q where q: "unat i = 4 * q" by (auto elim!: dvdE)
    have "unat i < 256" using unsigned_less[of i, where ?'a = nat] by simp
    with q have "unat i \<le> 252" by arith
    with a have "int (unat i) < int (unat ad_len) - 1" by arith
    then have lt: "uint i < uint ad_len - 1" by simp
    have "unat (i + 4) = (unat i + 4) mod 256"
      by (simp add: unat_word_ariths)
    with q have nxt: "4 dvd unat (i + 4)" by (simp add: dvd_mod_iff)
    from step lt a have "f 4 ad_len ad 0 arr (i + 4) = Some r"
      by (simp add: inner_loop_empty)
    from IH[OF this] a nxt show False by simp
  qed
qed

lemma list_matcher_32_never_returns:
  assumes "uuid_array_length (uuids_32bit (hci_event_filter s)) = 0" "254 \<le> unat ad_len"
  shows "filter_32bit_list s ad_len ad_data = None"
proof -
  have "service_class_uuids_outer 4 ad_len ad_data 0 arr 0 = None" for arr
  proof (rule ccontr)
    assume "service_class_uuids_outer 4 ad_len ad_data 0 arr 0 \<noteq> None"
    then obtain r where "service_class_uuids_outer 4 ad_len ad_data 0 arr 0 = Some r" by auto
    from outer_loop_wraps[OF this] assms(2) show False by simp
  qed
  then show ?thesis
    by (simp add: filter_32bit_list_def assms(1) sl_filter_list_of_service_class_uuids_def)
qed

lemma example_accepted:
  "filter_by_uuid zero_memory example_uuid_state (example_event 0 0 8 matching_data)
     = Some (EVENT_ACCEPT, example_uuid_state)"
proof -
  have b: "uuid_lists_bounded example_uuid_state"
    by (simp add: uuid_lists_bounded_def example_uuid_state_def)
  show ?thesis
    using uuid_stage_scan_result[OF example_reaches_scan(1) example_carries(1) b]
    by (simp only: matching_data_matches if_True)
qed

lemma example_whole:
  "list_all carries_whole_uuids [(0xFF, [1, 2]), (0x16, [0x0F, 0x18])]"
  by (simp add: carries_whole_uuids_def rule_of_type_def uuid_width_of_type_def filter_consts)

text \<open>A configuration that the validator accepted, under capacities the \<^verbatim>\<open>uint8_t\<close>
  counters of the matchers can pass, has bounded lists.\<close>

lemma configure_filtering_bounded:
  assumes "fst (sl_btctrl_hci_event_configure_filtering b p s) = SL_STATUS_OK"
    and "SL_BT_HCI_FILTER_16BIT_UUID_ARRAY_LEN b \<le> 254"
    and "SL_BT_HCI_FILTER_32BIT_UUID_ARRAY_LEN b \<le> 252"
  shows "uuid_lists_bounded (snd (sl_btctrl_hci_event_configure_filtering b p s))"
  using assms
  by (auto simp: configure_filtering_eq uuid_lists_bounded_def split: if_splits)

text \<open>
  Where the matchers return. With an empty 16-bit list, the service-data matcher and the list
  matcher for 16-bit UUIDs return "discard" for every AD payload; with an empty 32-bit list
  so does the service-data matcher for 32-bit UUIDs, and the list matcher for 32-bit UUIDs
  for every AD structure of length at most 253. A report that reaches the scan, whose AD
  data is a sequence of AD structures, each of which either falls under no enabled rule or
  meets an empty list, is discarded. And whatever the AD data, a report that reaches the scan
  while every enabled rule has an empty list is not accepted.
\<close>

lemma empty_lists_discard:
  "(uuid_array_length (uuids_16bit (hci_event_filter s)) = 0
      \<longrightarrow> filter_16bit_service s ad_data = Some EVENT_DISCARD
          \<and> filter_16bit_list s ad_len ad_data = Some EVENT_DISCARD)
   \<and> (uuid_array_length (uuids_32bit (hci_event_filter s)) = 0
      \<longrightarrow> filter_32bit_service s ad_data = Some EVENT_DISCARD
          \<and> filter_32bit_list s ad_len ad_data \<noteq> Some EVENT_ACCEPT
          \<and> (unat ad_len \<le> 253 \<longrightarrow> filter_32bit_list s ad_len ad_data = Some EVENT_DISCARD))
   \<and> (reaches_scan beyond s event \<and> report_carries event ads \<and> only_empty_list_rules s ads
      \<longrightarrow> filter_by_uuid beyond s event = Some (EVENT_DISCARD, s))
   \<and> (reaches_scan beyond s event \<and> enabled_rules_have_empty_lists s
      \<longrightarrow> filter_by_uuid beyond s event \<noteq> Some (EVENT_ACCEPT, s))"
proof (intro conjI impI)
  assume e: "uuid_array_length (uuids_16bit (hci_event_filter s)) = 0"
  show "filter_16bit_service s ad_data = Some EVENT_DISCARD"
    by (simp add: filter_16bit_service_def e filter_service_empty to_status_def)
  have "unat ad_len + unat (2 :: u8) \<le> 257"
    using unsigned_less[of ad_len, where ?'a = nat] by simp
  then show "filter_16bit_list s ad_len ad_data = Some EVENT_DISCARD"
    by (simp add: filter_16bit_list_def e sl_filter_list_of_service_class_uuids_def
        outer_loop_empty to_status_def)
next
  assume e: "uuid_array_length (uuids_32bit (hci_event_filter s)) = 0"
  show "filter_32bit_service s ad_data = Some EVENT_DISCARD"
    by (simp add: filter_32bit_service_def e filter_service_empty to_status_def)
  show "filter_32bit_list s ad_len ad_data \<noteq> Some EVENT_ACCEPT"
    using outer_loop_empty_partial[of 4 ad_len ad_data 0 _ 0 True]
    by (auto simp: filter_32bit_list_def e sl_filter_list_of_service_class_uuids_def)
  show "filter_32bit_list s ad_len ad_data = Some EVENT_DISCARD" if "unat ad_len \<le> 253"
  proof -
    from that have "unat ad_len + unat (4 :: u8) \<le> 257" by simp
    then show ?thesis
      by (simp add: filter_32bit_list_def e sl_filter_list_of_service_class_uuids_def
          outer_loop_empty to_status_def)
  qed
next
  assume "reaches_scan beyond s event \<and> report_carries event ads \<and> only_empty_list_rules s ads"
  then show "filter_by_uuid beyond s event = Some (EVENT_DISCARD, s)"
    by (intro uuid_stage_empty_lists[of beyond s event ads]) simp_all
next
  assume "reaches_scan beyond s event \<and> enabled_rules_have_empty_lists s"
  then show "filter_by_uuid beyond s event \<noteq> Some (EVENT_ACCEPT, s)"
    by (intro uuid_stage_never_accepts) simp_all
qed

section \<open>The claims\<close>

text \<open>
  Claim C1 (the scan never reads at or past \<^verbatim>\<open>data_length\<close>) does not hold of the code; the
  theorem runs the code at a failing input. The UUID 0x180F is configured for service data. The report's AD
  data is the single byte 0x01 (\<^verbatim>\<open>data_length\<close> is 1). The loop reads the type byte at index 1
  before it tests the length, the test \<^verbatim>\<open>ad_len > data_len\<close> lets a length equal to the rest
  pass, \<^verbatim>\<open>data_len\<close> becomes \<open>1 - 2 = 255\<close>, and the loop walks through the zeroed rest of the
  buffer and on past its end. The verdict is then decided by the bytes that follow the
  buffer in memory: accept for one content, discard for another.
\<close>

theorem scan_reads_past_data_length:
  "filter_by_uuid example_stack example_uuid_state (example_event 0 0 1 [1])
     = Some (EVENT_ACCEPT, example_uuid_state)
   \<and> filter_by_uuid (copy_to zero_memory 0 [27]) example_uuid_state (example_event 0 0 1 [1])
     = Some (EVENT_DISCARD, example_uuid_state)"
proof -
  have r: "reaches_scan beyond example_uuid_state (example_event 0 0 1 [1])" for beyond
    by (simp add: reaches_scan_def uuid_rules_enabled_def decoded_report_def report_buffer_def
        event_type_incomplete_def read_u16_def buffer_after_copy_def example_defs filter_consts)
  have dl: "report_buffer beyond (example_event 0 0 1 [1]) offsetof_data_length = 1" for beyond
    by (simp add: report_buffer_def buffer_after_copy_def example_defs filter_consts)
  define d1 where "d1 = ptr_add (report_buffer example_stack (example_event 0 0 1 [1])) offsetof_data"
  define d2 where "d2 = ptr_add (report_buffer (copy_to zero_memory 0 [27]) (example_event 0 0 1 [1])) offsetof_data"
  have c1: "d1 (231 + k) = example_stack k" for k
    unfolding d1_def by (rule one_byte_data(3))
  have c2: "d2 (231 + k) = copy_to zero_memory 0 [27] k" for k
    unfolding d2_def by (rule one_byte_data(3))
  have st: "example_stack 0 = 1" "example_stack (Suc 0) = 0x16" "example_stack 2 = 0x0F"
    "example_stack 3 = 0x18" "copy_to zero_memory 0 [27] 0 = 27"
    by (simp_all add: example_stack_def copy_to_def zero_memory_def)
  have b1: "d1 231 = 1" "d1 (231 + 1) = 0x16" "ptr_add d1 (231 + 2) 0 = 0x0F"
    "ptr_add d1 (231 + 2) 1 = 0x18"
    using c1[of 0] c1[of 1] c1[of 2] c1[of 3] by (simp_all add: st ptr_add_def)
  have b2: "d2 231 = 27"
    using c2[of 0] by (simp add: st)
  have arr: "ptr_add (store example_uuid_state) 106 0 = 0x0F"
    "ptr_add (store example_uuid_state) 106 1 = 0x18"
    by (simp_all add: ptr_add_def example_defs copy_to_def)
  have m: "filter_service_data_uuid 2 (ptr_add d1 (231 + 2)) 2
             (ptr_add (store example_uuid_state) 106) = Some True"
    using b1 arr by (intro service_data_first_entry) (simp_all add: memcmp_equal_2)
  have acc: "apply_filter_accepts example_uuid_state 0x16 1 (ptr_add d1 (231 + 2)) = Some True"
    using m
    by (simp add: accepts_service_16 config_bit_def filter_16bit_service_def
        example_uuid_state_def)
  have "scan_ad_structures example_uuid_state d1 1 0
          = scan_ad_structures example_uuid_state d1 26 231"
    unfolding d1_def by (rule one_byte_scan) (simp add: example_stack_def copy_to_def)
  also have "\<dots> = Some EVENT_ACCEPT"
    using scan_step_at[of 231 231 d1 1 "0x16" 26 example_uuid_state True, OF _ b1(1) b1(2) _ _ acc]
    by simp
  finally have s1: "scan_ad_structures example_uuid_state d1 1 0 = Some EVENT_ACCEPT" .
  have "scan_ad_structures example_uuid_state d2 1 0
          = scan_ad_structures example_uuid_state d2 26 231"
    unfolding d2_def by (rule one_byte_scan) (simp add: copy_to_def)
  also have "\<dots> = Some EVENT_DISCARD"
    by (rule scan_overrun[of 231 231]) (simp_all add: b2)
  finally have s2: "scan_ad_structures example_uuid_state d2 1 0 = Some EVENT_DISCARD" .
  show ?thesis
    using s1 s2 by (simp add: filter_by_uuid_reaches_scan[OF r] dl d1_def d2_def)
qed

text \<open>The two verdicts differ, for the same report and the same configuration.\<close>

theorem scan_reads_past_data_length_witness:
  "filter_by_uuid example_stack example_uuid_state (example_event 0 0 1 [1])
     \<noteq> filter_by_uuid (copy_to zero_memory 0 [27]) example_uuid_state
         (example_event 0 0 1 [1])"
  using scan_reads_past_data_length by simp

text \<open>
  Claim C2, as the code has it. The byte at offset 5 of the configuration buffer is the length in
  bytes of the 16-bit UUID list (not the number of UUIDs), and the byte that gives the
  length in bytes of the 32-bit UUID list is read at offset 6 plus that byte count. When
  the validator succeeds, the active filter holds: the bitmask read little-endian from
  offset 0, the threshold from offset 4, the 16-bit list of \<open>buffer[5]\<close> bytes starting at
  offset 6, and the 32-bit list of \<open>buffer[6 + buffer[5]]\<close> bytes starting at offset
  \<open>7 + buffer[5]\<close>; a list of length 0 has the null pointer.
\<close>

theorem configure_filtering_layout:
  assumes "fst (sl_btctrl_hci_event_configure_filtering b p s) = SL_STATUS_OK"
  shows "hci_event_filter (snd (sl_btctrl_hci_event_configure_filtering b p s)) =
     \<lparr>filter_config = read_u32 (store s) p,
      rssi_threshold = store s (p + 4),
      uuids_16bit =
        \<lparr>uuid_array_length = store s (p + 5),
         uuid_array = (if store s (p + 5) > 0 then p + 6 else 0)\<rparr>,
      uuids_32bit =
        \<lparr>uuid_array_length = store s (p + 6 + unat (store s (p + 5))),
         uuid_array = (if store s (p + 6 + unat (store s (p + 5))) > 0
                       then p + 7 + unat (store s (p + 5)) else 0)\<rparr>\<rparr>"
  using assms by (auto simp: configure_filtering_eq split: if_splits)

text \<open>The theorem at the example buffer: a 16-bit list of 2 bytes at 106, a 32-bit list of
  4 bytes at 109, its length read at offset 8.\<close>

theorem configure_filtering_layout_witness:
  "fst (sl_btctrl_hci_event_configure_filtering example_deployment 100
          (static_init (copy_to zero_memory 100 example_config_bytes))) = SL_STATUS_OK
   \<and> hci_event_filter (snd (sl_btctrl_hci_event_configure_filtering example_deployment 100
          (static_init (copy_to zero_memory 100 example_config_bytes))))
      = hci_event_filter example_uuid_state"
proof -
  have ok: "fst (sl_btctrl_hci_event_configure_filtering example_deployment 100
          (static_init (copy_to zero_memory 100 example_config_bytes))) = SL_STATUS_OK"
    by (simp add: configure_filtering_eq example_defs copy_to_def read_u32_def filter_consts)
  show ?thesis
    using ok configure_filtering_layout[OF ok]
    by (simp add: example_defs copy_to_def read_u32_def)
qed

text \<open>
  Claim C2, as stated, fails: with a 16-bit list of 2 bytes (byte 5 is 2) the validator takes the
  length of the 32-bit list from offset 8, not from offset \<open>6 + 2 * 2 = 10\<close>.
\<close>

theorem uuid32_count_offset_counterexample:
  "fst (sl_btctrl_hci_event_configure_filtering example_deployment 100
          (static_init (copy_to zero_memory 100 example_config_bytes))) = SL_STATUS_OK
   \<and> uuid_array_length (uuids_32bit (hci_event_filter
         (snd (sl_btctrl_hci_event_configure_filtering example_deployment 100
                (static_init (copy_to zero_memory 100 example_config_bytes))))))
      \<noteq> copy_to zero_memory 100 example_config_bytes
           (100 + (6 + 2 * unat (copy_to zero_memory 100 example_config_bytes (100 + 5))))"
  by (simp add: configure_filtering_eq example_defs copy_to_def read_u32_def filter_consts)

text \<open>
  Claim C3 (one invocation of the UUID stage always returns) does not hold of the code; the
  code at a failing input. A UUID rule is enabled; the report declares \<^verbatim>\<open>data_length\<close> 255
  and its first AD structure has length 255 and a type outside the six UUID types. Then
  \<^verbatim>\<open>data_len - (ad_len + 1)\<close> is 255 again and \<^verbatim>\<open>current_idx + (ad_len + 1)\<close> is 0 again, as
  \<^verbatim>\<open>uint8_t\<close>: the loop is back where it started and never returns.
\<close>

theorem uuid_stage_never_returns:
  "filter_by_uuid zero_memory (example_state 2 0) (example_event 0 0 255 [255, 0]) = None"
proof -
  have "scan_ad_structures (example_state 2 0)
     (ptr_add (buffer_after_copy (example_report 0 0 255 [255, 0]) zero_memory) offsetof_data) 255 0 = None"
    by (rule scan_stuck) (simp_all add: ptr_add_def buffer_after_copy_def example_report_def filter_consts)
  then show ?thesis
    by (simp add: filter_by_uuid_def Let_def example_defs filter_consts read_u16_def event_type_incomplete_def
        buffer_after_copy_def)
qed

text \<open>In particular the stage does not discard this report.\<close>

theorem uuid_stage_never_returns_witness:
  "filter_by_uuid zero_memory (example_state 2 0) (example_event 0 0 255 [255, 0])
     \<noteq> Some (EVENT_DISCARD, example_state 2 0)"
  using uuid_stage_never_returns by simp

text \<open>
  Claim C4, as the code has it. The fragment flag \<^verbatim>\<open>advertisment_report_incomplete\<close> is false
  (idle) after initialisation. When at least one of the six UUID rules is enabled and the
  event is an Extended Advertising Report that is decoded: a report with event-type bit 5
  set, met while the flag is false, sets the flag and is accepted whatever its AD data
  holds; a report with the bit clear, met while the flag is true, clears the flag and is
  accepted. No call of the UUID stage that returns changes the state in any other way.
\<close>

theorem fragment_tracker_transitions:
  "(uuid_rules_enabled s \<and> decoded_report event
      \<and> \<not> advertisment_report_incomplete s
      \<and> event_type_incomplete (report_buffer beyond event)
     \<longrightarrow> filter_by_uuid beyond s event
           = Some (EVENT_ACCEPT, s\<lparr>advertisment_report_incomplete := True\<rparr>))
   \<and> (uuid_rules_enabled s \<and> decoded_report event
      \<and> advertisment_report_incomplete s
      \<and> \<not> event_type_incomplete (report_buffer beyond event)
     \<longrightarrow> filter_by_uuid beyond s event
           = Some (EVENT_ACCEPT, s\<lparr>advertisment_report_incomplete := False\<rparr>))
   \<and> (filter_by_uuid beyond s event = Some (status, s') \<and> s' \<noteq> s
     \<longrightarrow> uuid_rules_enabled s \<and> decoded_report event \<and> status = EVENT_ACCEPT
         \<and> s' = s\<lparr>advertisment_report_incomplete := \<not> advertisment_report_incomplete s\<rparr>
         \<and> event_type_incomplete (report_buffer beyond event)
             = (\<not> advertisment_report_incomplete s))
   \<and> \<not> advertisment_report_incomplete (sli_bt_hci_filter_init (static_init m))"
proof (intro conjI impI)
  show "\<not> advertisment_report_incomplete (sli_bt_hci_filter_init (static_init m))"
    by (simp add: sli_bt_hci_filter_init_def static_init_def)
qed (use filter_by_uuid_bypass[of s event beyond]
       filter_by_uuid_state[of beyond s event status s'] in auto)

text \<open>With the service-data rule enabled: the first fragment of a chain, then its last.\<close>

theorem fragment_tracker_transitions_witness:
  "filter_by_uuid zero_memory (example_state 2 0) (example_event 0x20 0 0 [])
       = Some (EVENT_ACCEPT, (example_state 2 0)\<lparr>advertisment_report_incomplete := True\<rparr>)
   \<and> filter_by_uuid zero_memory ((example_state 2 0)\<lparr>advertisment_report_incomplete := True\<rparr>)
        (example_event 0 0 0 [])
       = Some (EVENT_ACCEPT, example_state 2 0)"
proof (rule conjI)
  have b: "\<not> advertisment_report_incomplete (example_state 2 0)"
    by (simp add: example_defs)
  show "filter_by_uuid zero_memory (example_state 2 0) (example_event 0x20 0 0 [])
       = Some (EVENT_ACCEPT, (example_state 2 0)\<lparr>advertisment_report_incomplete := True\<rparr>)"
    by (rule fragment_tracker_transitions [THEN conjunct1, THEN mp])
      (simp add: example_rules_enabled b example_incomplete example_decoded)
  show "filter_by_uuid zero_memory ((example_state 2 0)\<lparr>advertisment_report_incomplete := True\<rparr>)
        (example_event 0 0 0 [])
       = Some (EVENT_ACCEPT, example_state 2 0)"
    using fragment_tracker_transitions
      [of "(example_state 2 0)\<lparr>advertisment_report_incomplete := True\<rparr>"
          "example_event 0 0 0 []" zero_memory, THEN conjunct2, THEN conjunct1, THEN mp]
    by (simp add: example_rules_enabled example_incomplete example_decoded)
      (simp add: example_defs)
qed

text \<open>
  Claim C4, as stated, fails: with only the RSSI rule enabled (the default configuration) a
  decoded report with the incomplete flag set, met while the flag is false, is accepted but
  leaves the flag false.
\<close>

theorem tracker_idle_without_uuid_rules_counterexample:
  "decoded_report (example_event 0x20 0 0 [])
   \<and> event_type_incomplete (report_buffer zero_memory (example_event 0x20 0 0 []))
   \<and> \<not> advertisment_report_incomplete (example_state 1 0)
   \<and> filter_by_uuid zero_memory (example_state 1 0) (example_event 0x20 0 0 [])
       = Some (EVENT_ACCEPT, example_state 1 0)"
  by (simp add: example_decoded example_incomplete filter_by_uuid_no_rules
      example_rules_enabled) (simp add: example_defs)

text \<open>
  Claim C5, as the code has it. If none of the six UUID rule bits is enabled the stage
  accepts at once. Otherwise, for an Extended Advertising Report that is decoded, that the
  fragment test passes on to the scan, and whose AD data is a sequence of AD structures
  (each with its type byte, together of the declared \<^verbatim>\<open>data_length\<close>, at most 229 bytes),
  with UUID lists of at most 254 and 252 bytes: the stage accepts if and only if some AD
  structure falls under an enabled rule and the matcher of its type reports a match, and
  discards otherwise. The state is unchanged.
\<close>

theorem uuid_stage_is_union_of_enabled_rules:
  "(\<not> uuid_rules_enabled s \<longrightarrow> filter_by_uuid beyond s event = Some (EVENT_ACCEPT, s))
   \<and> (reaches_scan beyond s event \<and> report_carries event ads \<and> uuid_lists_bounded s
      \<longrightarrow> filter_by_uuid beyond s event =
            Some (if any_structure_matches s
                       (ptr_add (report_buffer beyond event) offsetof_data) 0 ads
                  then EVENT_ACCEPT else EVENT_DISCARD, s))"
  by (simp add: filter_by_uuid_no_rules uuid_stage_scan_result)

text \<open>The list \<open>{0x180F}\<close> for service data: a report that carries service data for
  \<open>0x180F\<close> after a manufacturer structure is accepted, a report that carries service data
  for \<open>0x180A\<close> only is discarded.\<close>

theorem uuid_stage_is_union_of_enabled_rules_witness:
  "filter_by_uuid zero_memory example_uuid_state (example_event 0 0 8 matching_data)
     = Some (EVENT_ACCEPT, example_uuid_state)
   \<and> filter_by_uuid zero_memory example_uuid_state (example_event 0 0 4 other_data)
     = Some (EVENT_DISCARD, example_uuid_state)"
proof (rule conjI)
  have b: "uuid_lists_bounded example_uuid_state"
    by (simp add: uuid_lists_bounded_def example_uuid_state_def)
  show "filter_by_uuid zero_memory example_uuid_state (example_event 0 0 8 matching_data)
          = Some (EVENT_ACCEPT, example_uuid_state)"
    using uuid_stage_is_union_of_enabled_rules
      [of example_uuid_state zero_memory "example_event 0 0 8 matching_data"
          "[(0xFF, [1, 2]), (0x16, [0x0F, 0x18])]", THEN conjunct2, THEN mp,
          OF conjI [OF example_reaches_scan(1) conjI [OF example_carries(1) b]]]
    by (simp only: matching_data_matches if_True)
  show "filter_by_uuid zero_memory example_uuid_state (example_event 0 0 4 other_data)
          = Some (EVENT_DISCARD, example_uuid_state)"
    using uuid_stage_is_union_of_enabled_rules
      [of example_uuid_state zero_memory "example_event 0 0 4 other_data"
          "[(0x16, [0x0A, 0x18])]", THEN conjunct2, THEN mp,
          OF conjI [OF example_reaches_scan(1) conjI [OF example_carries(2) b]]]
    by (simp only: other_data_matches_not if_False)
qed

text \<open>
  Claim C5, as stated, fails: with a UUID rule enabled, a report none of whose AD structures
  matches is accepted when it is the first fragment of a chain (incomplete flag set while
  the fragment flag is false).
\<close>

theorem boundary_fragment_accepted_counterexample:
  "uuid_rules_enabled example_uuid_state
   \<and> report_carries (example_event 0x20 0 4 other_data) [(0x16, [0x0A, 0x18])]
   \<and> \<not> any_structure_matches example_uuid_state
         (ptr_add (report_buffer zero_memory (example_event 0x20 0 4 other_data)) offsetof_data)
         0 [(0x16, [0x0A, 0x18])]
   \<and> filter_by_uuid zero_memory example_uuid_state (example_event 0x20 0 4 other_data)
       = Some (EVENT_ACCEPT, example_uuid_state\<lparr>advertisment_report_incomplete := True\<rparr>)"
proof (intro conjI)
  have "\<not> advertisment_report_incomplete example_uuid_state"
    by (simp add: example_uuid_state_def)
  then show "filter_by_uuid zero_memory example_uuid_state (example_event 0x20 0 4 other_data)
       = Some (EVENT_ACCEPT, example_uuid_state\<lparr>advertisment_report_incomplete := True\<rparr>)"
    using filter_by_uuid_bypass[of example_uuid_state "example_event 0x20 0 4 other_data"
        zero_memory]
    by (simp add: example_rules_enabled example_decoded example_incomplete)
qed (rule example_rules_enabled example_carries other_data_matches_not)+

text \<open>
  Claim C6, as the code has it. The validator returns \<^verbatim>\<open>SL_STATUS_INVALID_PARAMETER\<close>, and changes
  nothing, whenever the length byte of the 16-bit list (offset 5) or the length byte of the
  32-bit list (offset 6 plus the first length) exceeds its capacity. The command handler
  answers \<^verbatim>\<open>BT_ERR_INVALID\<close> to a command shorter than 5 bytes or longer than
  \<^verbatim>\<open>sizeof(struct sli_work_filter)\<close> (as a \<^verbatim>\<open>uint8_t\<close>). Neither compares the length of
  the command with the list lengths it announces.
\<close>

theorem configure_filtering_rejects_over_capacity:
  "(p \<noteq> 0
    \<and> (unat (store s (p + 5)) > SL_BT_HCI_FILTER_16BIT_UUID_ARRAY_LEN b
       \<or> unat (store s (p + 6 + unat (store s (p + 5))))
            > SL_BT_HCI_FILTER_32BIT_UUID_ARRAY_LEN b)
    \<longrightarrow> sl_btctrl_hci_event_configure_filtering b p s = (SL_STATUS_INVALID_PARAMETER, s))
   \<and> (msg_opcode_status m = SL_STATUS_OK
      \<and> msg_opcode m = SL_BT_HCI_CONFIGURE_FILTERING_OPCODE
      \<and> (msg_length m < 5 \<or> msg_length m > sizeof_sli_work_filter b mod 256)
    \<longrightarrow> hci_configure_filter_command b m s = (True, Some BT_ERR_INVALID, s))"
  by (simp add: hci_configure_filter_command_eq configure_filtering_eq)

text \<open>The theorem at a buffer that announces 3 bytes of 16-bit UUIDs where the capacity is
  2, and at a command of 4 bytes.\<close>

theorem configure_filtering_rejects_over_capacity_witness:
  "sl_btctrl_hci_event_configure_filtering example_deployment 100
     (static_init (copy_to zero_memory 100 [0x02, 0, 0, 0, 0, 3, 1, 2, 3, 0]))
     = (SL_STATUS_INVALID_PARAMETER,
        static_init (copy_to zero_memory 100 [0x02, 0, 0, 0, 0, 3, 1, 2, 3, 0]))
   \<and> hci_configure_filter_command example_deployment (short_command\<lparr>msg_length := 4\<rparr>)
       (static_init zero_memory)
     = (True, Some BT_ERR_INVALID, static_init zero_memory)"
  using configure_filtering_rejects_over_capacity
    [where p = 100 and b = example_deployment
       and s = "static_init (copy_to zero_memory 100 [0x02, 0, 0, 0, 0, 3, 1, 2, 3, 0])"
       and m = "short_command\<lparr>msg_length := 4\<rparr>"]
    configure_filtering_rejects_over_capacity
    [where p = 100 and b = example_deployment and s = "static_init zero_memory"
       and m = "short_command\<lparr>msg_length := 4\<rparr>"]
  by (simp add: example_defs copy_to_def filter_consts)

text \<open>
  Claim C6, as stated, fails: a command of 6 bytes that announces 2 bytes of 16-bit UUIDs, and so
  holds none of them, is answered with \<^verbatim>\<open>BT_OK\<close> and becomes the active configuration.
\<close>

theorem short_command_accepted_counterexample:
  "fst (snd (hci_configure_filter_command example_deployment short_command
               (static_init zero_memory))) = Some BT_OK
   \<and> msg_length short_command < 6 + unat (msg_parameters short_command ! 5)
   \<and> uuid_array_length (uuids_16bit (hci_event_filter (snd (snd
        (hci_configure_filter_command example_deployment short_command
           (static_init zero_memory)))))) = 2"
  by (simp add: hci_configure_filter_command_eq configure_filtering_eq example_defs
      copy_to_def read_u32_def filter_consts sizeof_sli_work_filter_def WORK_MEMORY_def)

text \<open>
  Claim C7. For an Extended Advertising Report that is decoded and reaches \<^verbatim>\<open>RSSI_OFFSET\<close> bytes
  (the test the source makes for "long enough to contain the RSSI field", on the reported
  length and on the bytes copied), with the RSSI rule enabled: the RSSI stage accepts if and
  only if the report's RSSI, as a signed byte, is at least the threshold. It changes no
  state.
\<close>

theorem rssi_stage_accepts_iff_at_least_threshold:
  assumes "filter_config (hci_event_filter s) AND SL_BT_HCI_FILTER_CONFIG_RSSI_ENABLE_MASK \<noteq> 0"
    and "opcode_status event = SL_STATUS_OK"
    and "opcode event = HCI_EVENT_LE_META_EVENT"
    and "subevent_opcode event = HCI_EVENT_LE_EXTENDED_ADVERTISING_REPORT"
    and "length_status event = SL_STATUS_OK"
    and "parameters_status event = SL_STATUS_OK"
    and "RSSI_OFFSET \<le> len event"
    and "RSSI_OFFSET \<le> length (parameters event)"
  shows "filter_by_rssi s event =
           (if sint (rssi_threshold (hci_event_filter s))
                 \<le> sint (parameters event ! offsetof_rssi)
            then EVENT_ACCEPT else EVENT_DISCARD, s)"
  using assms
  by (auto simp: filter_by_rssi_def Let_def buffer_after_copy_def filter_consts)

text \<open>The boundary: with the threshold at -80 dBm, a report at -80 dBm is accepted and a
  report at -81 dBm is discarded.\<close>

theorem rssi_stage_accepts_iff_at_least_threshold_witness:
  "filter_by_rssi (example_state 1 (word_of_int (- 80)))
       (example_event 0 (word_of_int (- 80)) 0 [])
     = (EVENT_ACCEPT, example_state 1 (word_of_int (- 80)))
   \<and> filter_by_rssi (example_state 1 (word_of_int (- 80)))
       (example_event 0 (word_of_int (- 81)) 0 [])
     = (EVENT_DISCARD, example_state 1 (word_of_int (- 80)))"
  using rssi_stage_accepts_iff_at_least_threshold
      [of "example_state 1 (word_of_int (- 80))" "example_event 0 (word_of_int (- 80)) 0 []"]
    rssi_stage_accepts_iff_at_least_threshold
      [of "example_state 1 (word_of_int (- 80))" "example_event 0 (word_of_int (- 81)) 0 []"]
  by (simp add: example_defs filter_consts)

text \<open>
  Claim C8. The validator fails exactly for a null buffer, a bit outside the seven rule bits, an
  RSSI threshold outside [-120, -30] with the RSSI rule enabled, or a UUID list length over
  its capacity; and whenever it fails, the state after the call is the state before it: the
  bitmask, the threshold, both UUID list lengths and pointers, the fragment flag and every
  byte of the store.
\<close>

theorem configure_filtering_failure_changes_nothing:
  "(fst (sl_btctrl_hci_event_configure_filtering b p s) \<noteq> SL_STATUS_OK \<longleftrightarrow>
      (p = 0
       \<or> read_u32 (store s) p AND NOT SL_BT_HCI_FILTER_CONFIG_MASK \<noteq> 0
       \<or> (read_u32 (store s) p AND SL_BT_HCI_FILTER_CONFIG_RSSI_ENABLE_MASK \<noteq> 0
          \<and> (sint (store s (p + 4)) < SL_BT_HCI_FILTER_RSSI_MIN
             \<or> sint (store s (p + 4)) > SL_BT_HCI_FILTER_RSSI_MAX))
       \<or> unat (store s (p + 5)) > SL_BT_HCI_FILTER_16BIT_UUID_ARRAY_LEN b
       \<or> unat (store s (p + 6 + unat (store s (p + 5))))
            > SL_BT_HCI_FILTER_32BIT_UUID_ARRAY_LEN b))
   \<and> (fst (sl_btctrl_hci_event_configure_filtering b p s) \<noteq> SL_STATUS_OK \<longrightarrow>
        snd (sl_btctrl_hci_event_configure_filtering b p s) = s)"
  by (simp add: configure_filtering_eq)

text \<open>The theorem at a threshold of -20 dBm with the RSSI rule enabled, over a state that
  already holds a configuration.\<close>

theorem configure_filtering_failure_changes_nothing_witness:
  "fst (sl_btctrl_hci_event_configure_filtering example_deployment 200
          (example_uuid_state\<lparr>store := copy_to (store example_uuid_state) 200
                                          [0x01, 0, 0, 0, word_of_int (- 20), 0, 0]\<rparr>))
     \<noteq> SL_STATUS_OK
   \<and> snd (sl_btctrl_hci_event_configure_filtering example_deployment 200
          (example_uuid_state\<lparr>store := copy_to (store example_uuid_state) 200
                                          [0x01, 0, 0, 0, word_of_int (- 20), 0, 0]\<rparr>))
     = example_uuid_state\<lparr>store := copy_to (store example_uuid_state) 200
                                       [0x01, 0, 0, 0, word_of_int (- 20), 0, 0]\<rparr>"
  using configure_filtering_failure_changes_nothing
      [of example_deployment 200
          "example_uuid_state\<lparr>store := copy_to (store example_uuid_state) 200
                                          [0x01, 0, 0, 0, word_of_int (- 20), 0, 0]\<rparr>"]
  by (simp add: copy_to_def read_u32_def filter_consts)

text \<open>
  Claim C9, as the code has it. The RSSI stage changes no state, and its verdict does not
  depend on the fragment flag. A call of the UUID stage that returns leaves the filter
  configuration and the store as they were. If it also leaves the fragment flag as it was,
  the state is unchanged, and a second call on the same report returns the same verdict,
  whatever the memory after the local buffer holds at the second call (\<open>beyond'\<close>),
  provided that the scan, when the report reaches it, reads inside the AD data: the AD data
  is a sequence of AD structures of the declared \<^verbatim>\<open>data_length\<close>, and every structure of a
  UUID type carries whole UUIDs.
\<close>

theorem stages_change_only_the_fragment_flag:
  "snd (filter_by_rssi s event) = s
   \<and> fst (filter_by_rssi (s\<lparr>advertisment_report_incomplete := t\<rparr>) event)
       = fst (filter_by_rssi s event)
   \<and> (filter_by_uuid beyond s event = Some (status, s')
      \<longrightarrow> hci_event_filter s' = hci_event_filter s \<and> store s' = store s)
   \<and> (filter_by_uuid beyond s event = Some (status, s')
       \<and> advertisment_report_incomplete s' = advertisment_report_incomplete s
       \<and> scan_reads_inside beyond s event ads
      \<longrightarrow> s' = s \<and> filter_by_uuid beyond' s' event = Some (status, s'))"
proof (intro conjI impI)
  show "snd (filter_by_rssi s event) = s" by (rule filter_by_rssi_state)
  show "fst (filter_by_rssi (s\<lparr>advertisment_report_incomplete := t\<rparr>) event)
       = fst (filter_by_rssi s event)" by (rule filter_by_rssi_tracker)
next
  assume "filter_by_uuid beyond s event = Some (status, s')"
  from filter_by_uuid_state[OF this]
  show "hci_event_filter s' = hci_event_filter s" "store s' = store s" by auto
next
  assume a: "filter_by_uuid beyond s event = Some (status, s')
       \<and> advertisment_report_incomplete s' = advertisment_report_incomplete s
       \<and> scan_reads_inside beyond s event ads"
  with filter_by_uuid_state[of beyond s event status s'] show eq: "s' = s" by auto
  from a have "filter_by_uuid beyond' s event = filter_by_uuid beyond s event"
    by (intro filter_by_uuid_memory[of beyond s event ads]) simp
  with a eq show "filter_by_uuid beyond' s' event = Some (status, s')" by simp
qed

text \<open>A report with a manufacturer structure and service data for \<open>0x180F\<close>, accepted by
  the scan: the second call accepts it too, also over the memory that changes the verdict
  of the one-byte report.\<close>

theorem stages_change_only_the_fragment_flag_witness:
  "filter_by_uuid example_stack example_uuid_state (example_event 0 0 8 matching_data)
     = Some (EVENT_ACCEPT, example_uuid_state)
   \<and> snd (filter_by_rssi example_uuid_state (example_event 0 0 8 matching_data))
       = example_uuid_state"
proof -
  have r: "scan_reads_inside zero_memory example_uuid_state (example_event 0 0 8 matching_data)
             [(0xFF, [1, 2]), (0x16, [0x0F, 0x18])]"
    unfolding scan_reads_inside_def using example_carries(1) example_whole by blast
  note t = stages_change_only_the_fragment_flag
    [where s = example_uuid_state and event = "example_event 0 0 8 matching_data"
       and beyond = zero_memory and beyond' = example_stack
       and status = EVENT_ACCEPT and s' = example_uuid_state
       and ads = "[(0xFF, [1, 2]), (0x16, [0x0F, 0x18])]"]
  from t[THEN conjunct2, THEN conjunct2, THEN conjunct2, THEN mp,
         OF conjI [OF example_accepted conjI [OF refl r]]]
  have "filter_by_uuid example_stack example_uuid_state (example_event 0 0 8 matching_data)
     = Some (EVENT_ACCEPT, example_uuid_state)"
    by (rule conjunct2)
  moreover have "snd (filter_by_rssi example_uuid_state (example_event 0 0 8 matching_data))
       = example_uuid_state"
    by (rule t[THEN conjunct1])
  ultimately show ?thesis by (rule conjI)
qed

text \<open>
  Claim C9, as stated, fails: the same report, under the same configuration, is accepted by
  the first call (it is taken for the first fragment of a chain, and the fragment flag is
  set) and discarded by the second.
\<close>

theorem second_invocation_differs_counterexample:
  "filter_by_uuid zero_memory (example_state 2 0) (example_event 0x20 0 0 [])
     = Some (EVENT_ACCEPT, (example_state 2 0)\<lparr>advertisment_report_incomplete := True\<rparr>)
   \<and> filter_by_uuid zero_memory ((example_state 2 0)\<lparr>advertisment_report_incomplete := True\<rparr>)
       (example_event 0x20 0 0 [])
     = Some (EVENT_DISCARD, (example_state 2 0)\<lparr>advertisment_report_incomplete := True\<rparr>)"
proof (rule conjI)
  have "\<not> advertisment_report_incomplete (example_state 2 0)"
    by (simp add: example_defs)
  then show "filter_by_uuid zero_memory (example_state 2 0) (example_event 0x20 0 0 [])
     = Some (EVENT_ACCEPT, (example_state 2 0)\<lparr>advertisment_report_incomplete := True\<rparr>)"
    using filter_by_uuid_bypass[of "example_state 2 0" "example_event 0x20 0 0 []" zero_memory]
    by (simp add: example_rules_enabled example_decoded example_incomplete)
  show "filter_by_uuid zero_memory ((example_state 2 0)\<lparr>advertisment_report_incomplete := True\<rparr>)
       (example_event 0x20 0 0 [])
     = Some (EVENT_DISCARD, (example_state 2 0)\<lparr>advertisment_report_incomplete := True\<rparr>)"
    using example_empty_scan[of True] by simp
qed

text \<open>
  Claim C10 (with an empty UUID list the matchers return no match for every AD payload, and
  the report is discarded) does not hold of the code; the theorem runs the code at a failing
  input. The complete-list rule for 32-bit UUIDs is enabled and the 32-bit list is empty. For
  an AD structure of length 254 or 255 the list matcher never returns, whatever the payload:
  its \<^verbatim>\<open>uint8_t\<close> counter steps by 4 up to 252 and wraps to 0 below the bound. A report that
  declares \<^verbatim>\<open>data_length\<close> 255 and begins with an AD structure of length 254 and type
  \<open>0x05\<close> reaches this matcher, and the stage never returns: the report is not discarded.
\<close>

theorem empty_list_matcher_never_returns:
  "filter_32bit_list (example_state 0x42 0) 254 ad_data = None
   \<and> filter_32bit_list (example_state 0x42 0) 255 ad_data = None
   \<and> filter_by_uuid beyond (example_state 0x42 0) (example_event 0 0 255 [254, 0x05]) = None"
proof (intro conjI)
  have e: "uuid_array_length (uuids_32bit (hci_event_filter (example_state 0x42 0))) = 0"
    by (simp add: example_defs)
  show m: "filter_32bit_list (example_state 0x42 0) 254 ad_data = None" for ad_data
    using e by (rule list_matcher_32_never_returns) simp
  show "filter_32bit_list (example_state 0x42 0) 255 ad_data = None"
    using e by (rule list_matcher_32_never_returns) simp
  define data where
    "data = ptr_add (report_buffer beyond (example_event 0 0 255 [254, 0x05])) offsetof_data"
  have d: "data (unat (0 :: u8)) = 254" "data (unat (0 :: u8) + 1) = 0x05"
    by (simp_all add: data_def ptr_add_def report_buffer_def buffer_after_copy_def example_defs
        filter_consts)
  have dl: "report_buffer beyond (example_event 0 0 255 [254, 0x05]) offsetof_data_length = 255"
    by (simp add: report_buffer_def buffer_after_copy_def example_defs filter_consts)
  have c: "config_bit (example_state 0x42 0) 6"
    by (simp add: config_bit_def example_defs)
  have "apply_filter_accepts (example_state 0x42 0) 0x05 254 dd = None" for dd
    by (simp add: accepts_complete_32 c m)
  then have "scan_ad_structures (example_state 0x42 0) data 255 0 = None"
    using scan_step[of 255 data 0 "example_state 0x42 0"] d by simp
  then show "filter_by_uuid beyond (example_state 0x42 0) (example_event 0 0 255 [254, 0x05]) = None"
    by (simp add: filter_by_uuid_reaches_scan[OF example_reaches_scan(2)] dl data_def)
qed

text \<open>In particular neither the matcher nor the stage reports "discard".\<close>

theorem empty_list_matcher_never_returns_witness:
  "filter_by_uuid zero_memory (example_state 0x42 0) (example_event 0 0 255 [254, 0x05])
     \<noteq> Some (EVENT_DISCARD, example_state 0x42 0)
   \<and> filter_32bit_list (example_state 0x42 0) 254 zero_memory \<noteq> Some EVENT_DISCARD"
  using empty_list_matcher_never_returns[of zero_memory zero_memory] by simp

end
